theory Spec2Isabelle
  imports Complex_Main "HOL-Library.Log_Nat"
begin

section \<open>Data model\<close>

text \<open>
  The ball types of \<^verbatim>\<open>arb.h\<close> and \<^verbatim>\<open>acb.h\<close>: a real ball is a midpoint
  (an \<^verbatim>\<open>arf_t\<close>) with a radius (a \<^verbatim>\<open>mag_t\<close>), a complex ball a pair of real balls.
  The number types themselves are not part of \<^verbatim>\<open>integrate.c\<close>; they are the type
  parameters \<open>'r\<close> (midpoints) and \<open>'m\<close> (magnitudes). Magnitudes are compared
  exactly, so \<open>'m\<close> is a linear order wherever \<^verbatim>\<open>mag_cmp\<close> or \<^verbatim>\<open>mag_max\<close> is used.
  The fields carry the names of the accessor macros.
\<close>

record ('r, 'm) arb =
  arb_midref :: 'r
  arb_radref :: 'm

record ('r, 'm) acb =
  acb_realref :: "('r, 'm) arb"
  acb_imagref :: "('r, 'm) arb"

text \<open>
  The operations of the ball and magnitude substrate that \<^verbatim>\<open>integrate.c\<close> calls.
  Their code lives outside the file, so they are taken as a parameter: a record of
  functions, one field per C function, output arguments turned into results.
\<close>

record ('r, 'm) substrate =
  acb_add :: "('r, 'm) acb \<Rightarrow> ('r, 'm) acb \<Rightarrow> int \<Rightarrow> ('r, 'm) acb"
  acb_sub :: "('r, 'm) acb \<Rightarrow> ('r, 'm) acb \<Rightarrow> int \<Rightarrow> ('r, 'm) acb"
  acb_mul :: "('r, 'm) acb \<Rightarrow> ('r, 'm) acb \<Rightarrow> int \<Rightarrow> ('r, 'm) acb"
  acb_mul_2exp_si :: "('r, 'm) acb \<Rightarrow> int \<Rightarrow> ('r, 'm) acb"
  arb_zero :: "('r, 'm) arb"
  arb_get_mag :: "('r, 'm) arb \<Rightarrow> 'm"
  arb_add_error_mag :: "('r, 'm) arb \<Rightarrow> 'm \<Rightarrow> ('r, 'm) arb"
  acb_get_mag_lower :: "('r, 'm) acb \<Rightarrow> 'm"
  acb_contains_zero :: "('r, 'm) acb \<Rightarrow> bool"
  acb_is_finite :: "('r, 'm) acb \<Rightarrow> bool"
  acb_is_real :: "('r, 'm) acb \<Rightarrow> bool"
  mag_hypot :: "'m \<Rightarrow> 'm \<Rightarrow> 'm"
  mag_mul_2exp_si :: "'m \<Rightarrow> int \<Rightarrow> 'm"

text \<open>\<^verbatim>\<open>acb_zero\<close> zeroes both parts.\<close>

definition acb_zero :: "('r, 'm) substrate \<Rightarrow> ('r, 'm) acb" where
  "acb_zero ops = \<lparr>acb_realref = arb_zero ops, acb_imagref = arb_zero ops\<rparr>"

text \<open>
  Modelled from the spec: \<^verbatim>\<open>mag_cmp\<close> and \<^verbatim>\<open>mag_max\<close> are not in \<^verbatim>\<open>integrate.c\<close>;
  the spec says that comparison and maximum of magnitudes are exact, so they are the
  three-way comparison and the maximum of the order on \<open>'m\<close>.
\<close>

definition mag_cmp :: "'m::linorder \<Rightarrow> 'm \<Rightarrow> int" where
  "mag_cmp x y = (if x < y then - 1 else if x = y then 0 else 1)"

definition mag_max :: "'m::linorder \<Rightarrow> 'm \<Rightarrow> 'm" where
  "mag_max x y = max x y"

text \<open>
  The integrand \<^verbatim>\<open>f(out, inp, param, order, prec)\<close>. The memory behind the opaque
  \<^verbatim>\<open>param\<close> pointer has type \<open>'p\<close>; a call may change it, so the integrand takes
  it and returns it: \<open>f inp param order prec = (out, param')\<close>.
\<close>

type_synonym ('r, 'm, 'p) acb_calc_func =
  "('r, 'm) acb \<Rightarrow> 'p \<Rightarrow> int \<Rightarrow> int \<Rightarrow> ('r, 'm) acb \<times> 'p"

text \<open>
  The Gauss-Legendre rule \<^verbatim>\<open>acb_calc_integrate_gl_auto_deg(res, f, param, a, b, tol,
  deg_limit, flags, prec)\<close> is outside the file as well and is a parameter: it
  returns its evaluation count, the ball it wrote to \<^verbatim>\<open>res\<close> and the memory behind
  \<^verbatim>\<open>param\<close>.
\<close>

type_synonym ('r, 'm, 'p) gl_rule =
  "('r, 'm, 'p) acb_calc_func \<Rightarrow> 'p \<Rightarrow> ('r, 'm) acb \<Rightarrow> ('r, 'm) acb \<Rightarrow> 'm \<Rightarrow> int \<Rightarrow> int \<Rightarrow> int
     \<Rightarrow> int \<times> ('r, 'm) acb \<times> 'p"

section \<open>The direct rule\<close>

definition quad_simple ::
  "('r, 'm) substrate \<Rightarrow> ('r, 'm, 'p) acb_calc_func \<Rightarrow> 'p \<Rightarrow> ('r, 'm) acb \<Rightarrow> ('r, 'm) acb \<Rightarrow> int
     \<Rightarrow> ('r, 'm) acb \<times> 'p" where
  "quad_simple ops f param a b prec =
     (let delta = acb_mul_2exp_si ops (acb_sub ops b a prec) (- 1);
          mid = acb_mul_2exp_si ops (acb_add ops a b prec) (- 1);
          wide = \<lparr>acb_realref =
                    arb_add_error_mag ops (acb_realref mid) (arb_get_mag ops (acb_realref delta)),
                  acb_imagref =
                    arb_add_error_mag ops (acb_imagref mid) (arb_get_mag ops (acb_imagref delta))\<rparr>;
          (res, param') = f wide param 0 prec
      in (acb_mul_2exp_si ops (acb_mul ops res delta prec) 1, param'))"

section \<open>The adaptive integrator\<close>

text \<open>
  The parameters that the loop reads and never writes, after the defaults are filled in:
\<close>

record settings =
  goal :: int
  deg_limit :: int
  eval_limit :: int
  depth_limit :: int
  flags :: int
  prec :: int

text \<open>
  \<^verbatim>\<open>slong\<close> is the signed 64-bit integer. The model computes with integers and
  agrees with the code as long as no \<^verbatim>\<open>slong\<close> operation overflows, which C leaves
  undefined.
\<close>

definition slong :: "int \<Rightarrow> bool" where
  "slong x \<longleftrightarrow> - (2 ^ 63) \<le> x \<and> x < 2 ^ 63"

text \<open>
  Rounding to IEEE double precision, to nearest with ties to even, for an integer
  \<open>n \<ge> 0\<close>: an integer of at most 53 bits is kept, a longer one loses its low
  \<open>e\<close> bits and is rounded on the bit above them. Rounding commutes with scaling by a
  power of two, so the same function rounds a value given as a count of halves.
\<close>

definition round53 :: "int \<Rightarrow> int" where
  "round53 n =
     (if bitlen n \<le> 53 then n
      else
        let e = nat (bitlen n - 53);
            q = n div 2 ^ e;
            r = n mod 2 ^ e;
            h = 2 ^ (e - 1)
        in (if r < h \<or> (r = h \<and> even q) then q else q + 1) * 2 ^ e)"

text \<open>
  Line 83, \<^verbatim>\<open>deg_limit = 0.5 * goal + 10\<close>, for \<open>goal \<ge> 0\<close>: \<open>goal\<close> is converted
  to double, which rounds it; the product with \<open>0.5\<close> is exact; the sum with 10 is
  rounded; and the assignment to an \<^verbatim>\<open>slong\<close> truncates. In halves: the rounded
  \<open>goal\<close> counts the halves of the product, 20 halves are added, the sum is rounded,
  and the halves are dropped.
\<close>

definition default_deg_limit :: "int \<Rightarrow> int" where
  "default_deg_limit g = round53 (round53 g + 20) div 2"

text \<open>Lines 73 to 83.\<close>

definition resolve_limits :: "int \<Rightarrow> int \<Rightarrow> int \<Rightarrow> int \<Rightarrow> int \<Rightarrow> int \<Rightarrow> settings" where
  "resolve_limits goal0 deg_limit0 eval_limit0 depth_limit0 flags0 prec0 =
     (let depth_limit1 = (if depth_limit0 \<le> 0 then 2 * prec0 else depth_limit0);
          depth_limit2 = max depth_limit1 1;
          eval_limit1 = (if eval_limit0 \<le> 0 then 1000 * prec0 else eval_limit0);
          eval_limit2 = max eval_limit1 1;
          goal1 = max goal0 0;
          deg_limit1 = (if deg_limit0 \<le> 0 then default_deg_limit goal1 else deg_limit0)
      in \<lparr>goal = goal1, deg_limit = deg_limit1, eval_limit = eval_limit2,
          depth_limit = depth_limit2, flags = flags0, prec = prec0\<rparr>)"

text \<open>
  The three stack arrays, the running sum and the counters. An access outside an
  array is undefined in C; the model stops with \<open>OutOfBounds\<close> there.
\<close>

datatype error = OutOfBounds

record ('r, 'm, 'p) state =
  as :: "('r, 'm) acb list"
  bs :: "('r, 'm) acb list"
  vs :: "('r, 'm) acb list"
  s :: "('r, 'm) acb"
  new_tol :: 'm
  depth :: int
  depth_max :: int
  eval :: int
  stopping :: bool
  param :: 'p

definition in_vec :: "'a list \<Rightarrow> int \<Rightarrow> bool" where
  "in_vec xs i \<longleftrightarrow> 0 \<le> i \<and> i < int (length xs)"

definition in_stack :: "('r, 'm, 'p) state \<Rightarrow> int \<Rightarrow> bool" where
  "in_stack st i \<longleftrightarrow> in_vec (as st) i \<and> in_vec (bs st) i \<and> in_vec (vs st) i"

definition vec_swap :: "'a list \<Rightarrow> nat \<Rightarrow> nat \<Rightarrow> 'a list" where
  "vec_swap xs i j = xs[i := xs ! j, j := xs ! i]"

text \<open>
  Lines 163 to 193: the bisection of the top interval, which sits at index
  \<open>depth - 1\<close>; the right half is written to index \<open>depth\<close>.
\<close>

definition bisect ::
  "('r, 'm::linorder) substrate \<Rightarrow> ('r, 'm, 'p) acb_calc_func \<Rightarrow> settings
     \<Rightarrow> ('r, 'm, 'p) state \<Rightarrow> error + ('r, 'm, 'p) state" where
  "bisect ops f c st =
     (if \<not> (in_stack st (depth st - 1) \<and> in_stack st (depth st)) then Inl OutOfBounds
      else
        let i = nat (depth st - 1); j = nat (depth st);
            bs1 = (bs st)[j := bs st ! i];
            as1 = (as st)[j := acb_mul_2exp_si ops (acb_add ops (as st ! i) (bs st ! i) (prec c)) (- 1)];
            bs2 = bs1[i := as1 ! j];
            (vl, p1) = quad_simple ops f (param st) (as1 ! i) (bs2 ! i) (prec c);
            vs1 = (vs st)[i := vl];
            (vr, p2) = quad_simple ops f p1 (as1 ! j) (bs2 ! j) (prec c);
            vs2 = vs1[j := vr];
            tmpm = mag_hypot ops (arb_radref (acb_realref (vs2 ! i)))
                     (arb_radref (acb_imagref (vs2 ! i)));
            tmpn = mag_hypot ops (arb_radref (acb_realref (vs2 ! j)))
                     (arb_radref (acb_imagref (vs2 ! j)));
            sw = (mag_cmp tmpm tmpn > 0);
            as3 = (if sw then vec_swap as1 j i else as1);
            bs3 = (if sw then vec_swap bs2 j i else bs2);
            vs3 = (if sw then vec_swap vs2 j i else vs2);
            tmpm' = mag_mul_2exp_si ops (acb_get_mag_lower ops (vs3 ! j)) (- goal c)
        in Inr (st\<lparr>as := as3, bs := bs3, vs := vs3,
                 new_tol := mag_max (new_tol st) tmpm',
                 depth := depth st + 1,
                 depth_max := max (depth st + 1) (depth_max st),
                 eval := eval st + 2,
                 param := p2\<rparr>))"

text \<open>Lines 155 to 161, then the bisection.\<close>

definition stop_or_bisect ::
  "('r, 'm::linorder) substrate \<Rightarrow> ('r, 'm, 'p) acb_calc_func \<Rightarrow> settings
     \<Rightarrow> ('r, 'm, 'p) state \<Rightarrow> error + ('r, 'm, 'p) state" where
  "stop_or_bisect ops f c st =
     (if depth st \<ge> depth_limit c - 1 then Inr (st\<lparr>stopping := True\<rparr>)
      else bisect ops f c st)"

text \<open>
  The test of line 120 on the top interval: its value \<open>t\<close> is good enough, or the
  interval is degenerate, or the budget is spent.
\<close>

definition accept_test :: "('r, 'm::linorder) substrate \<Rightarrow> settings \<Rightarrow> ('r, 'm, 'p) state \<Rightarrow> bool" where
  "accept_test ops c st =
     (let i = nat (depth st - 1);
          t = vs st ! i;
          tmpm = mag_hypot ops (arb_radref (acb_realref t)) (arb_radref (acb_imagref t));
          u = acb_sub ops (as st ! i) (bs st ! i) (prec c)
      in mag_cmp tmpm (new_tol st) < 0 \<or> acb_contains_zero ops u \<or> stopping st)"

text \<open>Lines 133 and 134: the call of the Gauss-Legendre rule on the top interval.\<close>

definition gl_attempt ::
  "('r, 'm, 'p) gl_rule \<Rightarrow> ('r, 'm, 'p) acb_calc_func \<Rightarrow> settings \<Rightarrow> ('r, 'm, 'p) state
     \<Rightarrow> int \<times> ('r, 'm) acb \<times> 'p" where
  "gl_attempt gl f c st =
     gl f (param st) (as st ! nat (depth st - 1)) (bs st ! nat (depth st - 1)) (new_tol st)
       (deg_limit c) (flags c) (prec c)"

text \<open>
  One iteration of the loop of lines 105 to 194, entered with \<open>depth \<ge> 1\<close>. The
  messages printed under \<^verbatim>\<open>ACB_CALC_VERBOSE\<close> are left out: they change no variable.
\<close>

definition step ::
  "('r, 'm::linorder) substrate \<Rightarrow> ('r, 'm, 'p) gl_rule \<Rightarrow> ('r, 'm, 'p) acb_calc_func \<Rightarrow> settings
     \<Rightarrow> ('r, 'm, 'p) state \<Rightarrow> error + ('r, 'm, 'p) state" where
  "step ops gl f c st =
     (if \<not> stopping st \<and> eval st \<ge> eval_limit c - 1 then Inr (st\<lparr>stopping := True\<rparr>)
      else if \<not> in_stack st (depth st - 1) then Inl OutOfBounds
      else
        let i = nat (depth st - 1);
            t = vs st ! i
        in if accept_test ops c st
           then Inr (st\<lparr>s := acb_add ops (s st) t (prec c), depth := depth st - 1\<rparr>)
           else if acb_is_finite ops t
           then
             (let real_error = (acb_is_finite ops t \<and> acb_is_real ops t);
                  (feval, t1, p1) = gl_attempt gl f c st;
                  st1 = st\<lparr>eval := eval st + feval, param := p1\<rparr>
              in if feval > 0
                 then
                   (let t2 = (if real_error then t1\<lparr>acb_imagref := arb_zero ops\<rparr> else t1);
                        tmpm = mag_mul_2exp_si ops (acb_get_mag_lower ops t2) (- goal c)
                    in Inr (st1\<lparr>s := acb_add ops (s st1) t2 (prec c),
                                  new_tol := mag_max (new_tol st1) tmpm,
                                  depth := depth st1 - 1\<rparr>))
                 else stop_or_bisect ops f c st1)
           else stop_or_bisect ops f c st)"

text \<open>
  The loop runs while \<open>depth \<ge> 1\<close>. \<open>None\<close> is a loop that never ends,
  \<open>Some (Inl OutOfBounds)\<close> one that left an array.
\<close>

partial_function (option) main_loop ::
  "('r, 'm::linorder) substrate \<Rightarrow> ('r, 'm, 'p) gl_rule \<Rightarrow> ('r, 'm, 'p) acb_calc_func \<Rightarrow> settings
     \<Rightarrow> ('r, 'm, 'p) state \<Rightarrow> (error + ('r, 'm, 'p) state) option" where
  "main_loop ops gl f c st =
     (if depth st \<ge> 1
      then (case step ops gl f c st of
              Inl e \<Rightarrow> Some (Inl e)
            | Inr st' \<Rightarrow> main_loop ops gl f c st')
      else Some (Inr st))"

declare main_loop.simps [code]

text \<open>
  The same loop cut off after \<open>n\<close> iterations: the states a run goes through.
\<close>

fun run_steps ::
  "('r, 'm::linorder) substrate \<Rightarrow> ('r, 'm, 'p) gl_rule \<Rightarrow> ('r, 'm, 'p) acb_calc_func \<Rightarrow> settings
     \<Rightarrow> nat \<Rightarrow> ('r, 'm, 'p) state \<Rightarrow> error + ('r, 'm, 'p) state" where
  "run_steps ops gl f c 0 st = Inr st"
| "run_steps ops gl f c (Suc n) st =
     (if depth st \<ge> 1
      then (case step ops gl f c st of
              Inl e \<Rightarrow> Inl e
            | Inr st' \<Rightarrow> run_steps ops gl f c n st')
      else Inr st)"

text \<open>
  Lines 85 to 103: the arrays of \<open>depth_limit\<close> zero balls, the first interval
  with its direct enclosure, the counters and the first tolerance.
\<close>

definition integrate_init ::
  "('r, 'm::linorder) substrate \<Rightarrow> ('r, 'm, 'p) acb_calc_func \<Rightarrow> 'p \<Rightarrow> ('r, 'm) acb \<Rightarrow> ('r, 'm) acb
     \<Rightarrow> 'm \<Rightarrow> settings \<Rightarrow> error + ('r, 'm, 'p) state" where
  "integrate_init ops f param0 a b tol c =
     (let as0 = replicate (nat (depth_limit c)) (acb_zero ops);
          bs0 = replicate (nat (depth_limit c)) (acb_zero ops);
          vs0 = replicate (nat (depth_limit c)) (acb_zero ops)
      in if \<not> (in_vec as0 0 \<and> in_vec bs0 0 \<and> in_vec vs0 0) then Inl OutOfBounds
         else
           let as1 = as0[0 := a];
               bs1 = bs0[0 := b];
               (v, p1) = quad_simple ops f param0 (as1 ! 0) (bs1 ! 0) (prec c);
               vs1 = vs0[0 := v];
               tmpm = mag_mul_2exp_si ops (acb_get_mag_lower ops (vs1 ! 0)) (- goal c)
           in Inr \<lparr>as = as1, bs = bs1, vs = vs1, s = acb_zero ops,
                    new_tol = mag_max tol tmpm,
                    depth = 1, depth_max = 1, eval = 1, stopping = False, param = p1\<rparr>)"

text \<open>The whole call, up to the end of the loop: the final state.\<close>

definition integrate_run ::
  "('r, 'm::linorder) substrate \<Rightarrow> ('r, 'm, 'p) gl_rule \<Rightarrow> ('r, 'm, 'p) acb_calc_func \<Rightarrow> 'p
     \<Rightarrow> ('r, 'm) acb \<Rightarrow> ('r, 'm) acb \<Rightarrow> int \<Rightarrow> 'm \<Rightarrow> int \<Rightarrow> int \<Rightarrow> int \<Rightarrow> int \<Rightarrow> int
     \<Rightarrow> (error + ('r, 'm, 'p) state) option" where
  "integrate_run ops gl f param0 a b goal0 tol deg_limit0 eval_limit0 depth_limit0 flags0 prec0 =
     (let c = resolve_limits goal0 deg_limit0 eval_limit0 depth_limit0 flags0 prec0
      in case integrate_init ops f param0 a b tol c of
           Inl e \<Rightarrow> Some (Inl e)
         | Inr st0 \<Rightarrow> main_loop ops gl f c st0)"

text \<open>
  \<^verbatim>\<open>acb_calc_integrate\<close> returns nothing; it writes the sum to \<^verbatim>\<open>res\<close>
  (line 202) and leaves the memory behind \<^verbatim>\<open>param\<close> as the integrand left it.
\<close>

definition acb_calc_integrate ::
  "('r, 'm::linorder) substrate \<Rightarrow> ('r, 'm, 'p) gl_rule \<Rightarrow> ('r, 'm, 'p) acb_calc_func \<Rightarrow> 'p
     \<Rightarrow> ('r, 'm) acb \<Rightarrow> ('r, 'm) acb \<Rightarrow> int \<Rightarrow> 'm \<Rightarrow> int \<Rightarrow> int \<Rightarrow> int \<Rightarrow> int \<Rightarrow> int
     \<Rightarrow> (error + ('r, 'm) acb \<times> 'p) option" where
  "acb_calc_integrate ops gl f param0 a b goal0 tol deg_limit0 eval_limit0 depth_limit0 flags0 prec0 =
     map_option (map_sum id (\<lambda>st. (s st, param st)))
       (integrate_run ops gl f param0 a b goal0 tol deg_limit0 eval_limit0 depth_limit0 flags0 prec0)"


section \<open>Invariants of the loop\<close>

text \<open>
  The three arrays keep the length they were allocated with, and the stack height stays
  between 0 and \<open>max 1 (depth_limit - 1)\<close>.
\<close>

definition stack_inv :: "settings \<Rightarrow> ('r, 'm, 'p) state \<Rightarrow> bool" where
  "stack_inv c st \<longleftrightarrow>
     length (as st) = nat (depth_limit c) \<and> length (bs st) = nat (depth_limit c) \<and>
     length (vs st) = nat (depth_limit c) \<and>
     1 \<le> depth_limit c \<and> 0 \<le> depth st \<and> depth st \<le> max 1 (depth_limit c - 1)"


text \<open>
  Modelled from the spec: the Gauss-Legendre rule is not in \<^verbatim>\<open>integrate.c\<close>. The
  spec gives its contract: it returns either success with an evaluation count above 0,
  or decline, the count 0. So its count is never negative.
\<close>

definition gl_count_nonneg :: "('r, 'm, 'p) gl_rule \<Rightarrow> bool" where
  "gl_count_nonneg gl \<longleftrightarrow> (\<forall>f p a b tol dl fl pr. 0 \<le> fst (gl f p a b tol dl fl pr))"

section \<open>A substrate without rounding\<close>

text \<open>
  Modelled from the spec: the ball and magnitude substrate is outside
  \<^verbatim>\<open>integrate.c\<close>, and the spec asks of it only that its operations are sound. To run
  the integrator on concrete inputs, this is one such substrate. Midpoints and radii
  are real numbers and every operation is exact, so every ball is finite: midpoints add
  and multiply, radii follow the usual error bounds, \<^verbatim>\<open>mag_hypot\<close> is bounded by the
  sum, and the lower bound of a complex ball is the one of its real part.
\<close>

type_synonym rball = "(real, real) arb"
type_synonym cball = "(real, real) acb"

definition two_exp :: "int \<Rightarrow> real" where
  "two_exp e = (if 0 \<le> e then 2 ^ nat e else 1 / 2 ^ nat (- e))"

definition rb :: "real \<Rightarrow> real \<Rightarrow> rball" where
  "rb m r = \<lparr>arb_midref = m, arb_radref = r\<rparr>"

definition cb :: "rball \<Rightarrow> rball \<Rightarrow> cball" where
  "cb x y = \<lparr>acb_realref = x, acb_imagref = y\<rparr>"

definition rb_add :: "rball \<Rightarrow> rball \<Rightarrow> rball" where
  "rb_add x y = rb (arb_midref x + arb_midref y) (arb_radref x + arb_radref y)"

definition rb_sub :: "rball \<Rightarrow> rball \<Rightarrow> rball" where
  "rb_sub x y = rb (arb_midref x - arb_midref y) (arb_radref x + arb_radref y)"

definition rb_mul :: "rball \<Rightarrow> rball \<Rightarrow> rball" where
  "rb_mul x y =
     rb (arb_midref x * arb_midref y)
        (\<bar>arb_midref x\<bar> * arb_radref y + \<bar>arb_midref y\<bar> * arb_radref x
           + arb_radref x * arb_radref y)"

definition rb_scale :: "rball \<Rightarrow> int \<Rightarrow> rball" where
  "rb_scale x e = rb (arb_midref x * two_exp e) (arb_radref x * two_exp e)"

definition exact_ops :: "(real, real) substrate" where
  "exact_ops =
     \<lparr>acb_add = (\<lambda>x y p. cb (rb_add (acb_realref x) (acb_realref y))
                             (rb_add (acb_imagref x) (acb_imagref y))),
      acb_sub = (\<lambda>x y p. cb (rb_sub (acb_realref x) (acb_realref y))
                             (rb_sub (acb_imagref x) (acb_imagref y))),
      acb_mul = (\<lambda>x y p. cb (rb_sub (rb_mul (acb_realref x) (acb_realref y))
                                     (rb_mul (acb_imagref x) (acb_imagref y)))
                             (rb_add (rb_mul (acb_realref x) (acb_imagref y))
                                     (rb_mul (acb_imagref x) (acb_realref y)))),
      acb_mul_2exp_si = (\<lambda>x e. cb (rb_scale (acb_realref x) e) (rb_scale (acb_imagref x) e)),
      arb_zero = rb 0 0,
      arb_get_mag = (\<lambda>x. \<bar>arb_midref x\<bar> + arb_radref x),
      arb_add_error_mag = (\<lambda>x m. rb (arb_midref x) (arb_radref x + m)),
      acb_get_mag_lower = (\<lambda>z. max 0 (\<bar>arb_midref (acb_realref z)\<bar> - arb_radref (acb_realref z))),
      acb_contains_zero = (\<lambda>z. \<bar>arb_midref (acb_realref z)\<bar> \<le> arb_radref (acb_realref z)
                               \<and> \<bar>arb_midref (acb_imagref z)\<bar> \<le> arb_radref (acb_imagref z)),
      acb_is_finite = (\<lambda>z. True),
      acb_is_real = (\<lambda>z. arb_midref (acb_imagref z) = 0 \<and> arb_radref (acb_imagref z) = 0),
      mag_hypot = (\<lambda>x y. x + y),
      mag_mul_2exp_si = (\<lambda>x e. x * two_exp e)\<rparr>"

text \<open>The ball of radius 0 around a real number.\<close>

definition pt :: "real \<Rightarrow> cball" where
  "pt x = cb (rb x 0) (rb 0 0)"

text \<open>The integrand \<open>f(x) = x\<close>, which returns the ball it is given.\<close>

definition f_ident :: "(real, real, unit) acb_calc_func" where
  "f_ident x p ord pr = (x, p)"

text \<open>The integrand \<open>f(x) = x\<^sup>2\<close>: the product of the ball with itself.\<close>

definition f_square :: "(real, real, unit) acb_calc_func" where
  "f_square x p ord pr = (acb_mul exact_ops x x pr, p)"

text \<open>A Gauss-Legendre rule that always declines: it reports the count 0.\<close>

definition gl_decline :: "(real, real, 'p) gl_rule" where
  "gl_decline f p a b tol dl fl pr = (0, a, p)"

text \<open>
  The Gauss-Legendre rule with one node, the midpoint rule: the value of the integrand
  at the midpoint times \<open>b - a\<close>, one evaluation. It is exact for \<open>f(x) = x\<close>.
\<close>

definition gl_midpoint :: "(real, real, 'p) gl_rule" where
  "gl_midpoint f p a b tol dl fl pr =
     (let mid = acb_mul_2exp_si exact_ops (acb_add exact_ops a b pr) (- 1);
          (y, p') = f mid p 0 pr
      in (1, acb_mul exact_ops y (acb_sub exact_ops b a pr) pr, p'))"

text \<open>
  An integrand wrapped so that the memory behind \<^verbatim>\<open>param\<close> also keeps the list of
  the calls made: the input ball, the derivative order and the precision of each.
\<close>

definition logged ::
  "('r, 'm, 'p) acb_calc_func \<Rightarrow> ('r, 'm, 'p \<times> (('r, 'm) acb \<times> int \<times> int) list) acb_calc_func" where
  "logged f x pl ord pr =
     (let (y, p') = f x (fst pl) ord pr in (y, (p', snd pl @ [(x, ord, pr)])))"

section \<open>What the balls mean\<close>

text \<open>
  Modelled from the spec: the meaning of a ball is not in \<^verbatim>\<open>integrate.c\<close>. The spec
  says that the true value lies within midpoint \<open>\<plusminus>\<close> radius, for each part of a complex
  ball on its own. Which real numbers a real ball contains is the parameter
  \<open>rmem\<close>; a complex ball contains \<open>z\<close> when its parts contain the parts of \<open>z\<close>.
\<close>

definition acb_contains ::
  "(real \<Rightarrow> ('r, 'm) arb \<Rightarrow> bool) \<Rightarrow> ('r, 'm) acb \<Rightarrow> complex \<Rightarrow> bool" where
  "acb_contains rmem X z \<longleftrightarrow> rmem (Re z) (acb_realref X) \<and> rmem (Im z) (acb_imagref X)"

text \<open>
  Modelled from the spec: the substrate's operations are sound, they never understate
  an error. For the operations and the arguments that \<^verbatim>\<open>integrate.c\<close> uses: sums,
  differences and products of members are members of the result; so are halves and
  doubles for the exponents \<open>-1\<close> and \<open>1\<close>; the zero ball contains 0; a ball
  widened by the magnitude of \<open>D\<close> contains the points within \<open>\<bar>d\<bar>\<close> of its
  members, for \<open>d\<close> in \<open>D\<close>; and a finite ball that passes \<^verbatim>\<open>acb_is_real\<close> contains
  real numbers only.
\<close>

definition sound_substrate ::
  "(real \<Rightarrow> ('r, 'm) arb \<Rightarrow> bool) \<Rightarrow> ('r, 'm) substrate \<Rightarrow> bool" where
  "sound_substrate rmem ops \<longleftrightarrow>
     (\<forall>X Y x y p. acb_contains rmem X x \<and> acb_contains rmem Y y
         \<longrightarrow> acb_contains rmem (acb_add ops X Y p) (x + y))
   \<and> (\<forall>X Y x y p. acb_contains rmem X x \<and> acb_contains rmem Y y
         \<longrightarrow> acb_contains rmem (acb_sub ops X Y p) (x - y))
   \<and> (\<forall>X Y x y p. acb_contains rmem X x \<and> acb_contains rmem Y y
         \<longrightarrow> acb_contains rmem (acb_mul ops X Y p) (x * y))
   \<and> (\<forall>X x. acb_contains rmem X x \<longrightarrow> acb_contains rmem (acb_mul_2exp_si ops X (- 1)) (x / 2))
   \<and> (\<forall>X x. acb_contains rmem X x \<longrightarrow> acb_contains rmem (acb_mul_2exp_si ops X 1) (2 * x))
   \<and> rmem 0 (arb_zero ops)
   \<and> (\<forall>X D x d e. rmem x X \<and> rmem d D \<and> \<bar>e\<bar> \<le> \<bar>d\<bar>
         \<longrightarrow> rmem (x + e) (arb_add_error_mag ops X (arb_get_mag ops D)))
   \<and> (\<forall>X z. acb_is_finite ops X \<and> acb_is_real ops X \<and> acb_contains rmem X z \<longrightarrow> Im z = 0)"

text \<open>
  Modelled from the spec: the integrand's contract. Called with derivative order 0 on
  a ball, whatever the memory behind \<^verbatim>\<open>param\<close> holds, it returns a ball that contains
  the value of the function \<open>F\<close> at every point of the input ball.
\<close>

definition sound_integrand ::
  "(real \<Rightarrow> ('r, 'm) arb \<Rightarrow> bool) \<Rightarrow> ('r, 'm, 'p) acb_calc_func \<Rightarrow> (complex \<Rightarrow> complex) \<Rightarrow> bool" where
  "sound_integrand rmem f F \<longleftrightarrow>
     (\<forall>X p pr x. acb_contains rmem X x \<longrightarrow> acb_contains rmem (fst (f X p 0 pr)) (F x))"

text \<open>
  \<open>I p q\<close> stands for the integral of \<open>F\<close> along the straight segment from \<open>p\<close> to
  \<open>q\<close>. The integrator relies on two facts about it: the segment can be cut at its
  midpoint, and the integral is the length \<open>q - p\<close> times a mean value, which lies in
  every ball that contains the values of \<open>F\<close> on the segment (a ball is a closed
  rectangle, hence convex).
\<close>

definition segment_integral ::
  "(real \<Rightarrow> ('r, 'm) arb \<Rightarrow> bool) \<Rightarrow> (complex \<Rightarrow> complex) \<Rightarrow> (complex \<Rightarrow> complex \<Rightarrow> complex) \<Rightarrow> bool" where
  "segment_integral rmem F I \<longleftrightarrow>
     (\<forall>p q. I p q = I p ((p + q) / 2) + I ((p + q) / 2) q)
   \<and> (\<forall>p q Y. (\<forall>t. 0 \<le> t \<and> t \<le> 1 \<longrightarrow> acb_contains rmem Y (F (p + of_real t * (q - p))))
         \<longrightarrow> (\<exists>y. acb_contains rmem Y y \<and> I p q = y * (q - p)))"

text \<open>
  Modelled from the spec: the contract of the Gauss-Legendre rule. When it reports
  success, a count above 0, the ball it returns encloses the integral between any two
  points of the endpoint balls.
\<close>

definition sound_gl ::
  "(real \<Rightarrow> ('r, 'm) arb \<Rightarrow> bool) \<Rightarrow> ('r, 'm, 'p) gl_rule \<Rightarrow> ('r, 'm, 'p) acb_calc_func
     \<Rightarrow> (complex \<Rightarrow> complex \<Rightarrow> complex) \<Rightarrow> bool" where
  "sound_gl rmem gl f I \<longleftrightarrow>
     (\<forall>p A B tol dl fl pr x y.
        0 < fst (gl f p A B tol dl fl pr) \<and> acb_contains rmem A x \<and> acb_contains rmem B y
          \<longrightarrow> acb_contains rmem (fst (snd (gl f p A B tol dl fl pr))) (I x y))"

text \<open>
  The invariant of the loop for the value \<open>w\<close> of the whole integral: every record
  \<open>(a, b, v)\<close> on the stack has a \<open>v\<close> that encloses the integral between any two
  points of \<open>a\<close> and \<open>b\<close>, and \<open>w\<close> is a member of \<open>s\<close> plus the integrals over the
  stacked intervals, between suitable points of their endpoint balls.
\<close>

definition encloses ::
  "(real \<Rightarrow> ('r, 'm) arb \<Rightarrow> bool) \<Rightarrow> (complex \<Rightarrow> complex \<Rightarrow> complex)
     \<Rightarrow> ('r, 'm) acb \<Rightarrow> ('r, 'm) acb \<Rightarrow> ('r, 'm) acb \<Rightarrow> bool" where
  "encloses rmem I A B V \<longleftrightarrow>
     (\<forall>p q. acb_contains rmem A p \<and> acb_contains rmem B q \<longrightarrow> acb_contains rmem V (I p q))"

definition sound_state ::
  "(real \<Rightarrow> ('r, 'm) arb \<Rightarrow> bool) \<Rightarrow> (complex \<Rightarrow> complex \<Rightarrow> complex) \<Rightarrow> complex
     \<Rightarrow> ('r, 'm, 'p) state \<Rightarrow> bool" where
  "sound_state rmem I w st \<longleftrightarrow>
     (\<forall>i < nat (depth st). encloses rmem I (as st ! i) (bs st ! i) (vs st ! i))
   \<and> (\<exists>\<sigma> pts. acb_contains rmem (s st) \<sigma>
         \<and> (\<forall>i < nat (depth st). acb_contains rmem (as st ! i) (fst (pts i))
                                   \<and> acb_contains rmem (bs st ! i) (snd (pts i)))
         \<and> w = \<sigma> + (\<Sum>i < nat (depth st). I (fst (pts i)) (snd (pts i))))"

text \<open>Membership in the balls of the substrate without rounding.\<close>

definition rb_mem :: "real \<Rightarrow> rball \<Rightarrow> bool" where
  "rb_mem x X \<longleftrightarrow> \<bar>x - arb_midref X\<bar> \<le> arb_radref X"

section \<open>One iteration, case by case\<close>

lemma step_budget:
  "\<not> stopping st \<Longrightarrow> eval st \<ge> eval_limit c - 1 \<Longrightarrow> step ops gl f c st = Inr (st\<lparr>stopping := True\<rparr>)"
  by (simp add: step_def)

lemma step_accept:
  "stopping st \<or> eval st < eval_limit c - 1 \<Longrightarrow> in_stack st (depth st - 1) \<Longrightarrow> accept_test ops c st
   \<Longrightarrow> step ops gl f c st =
       Inr (st\<lparr>s := acb_add ops (s st) (vs st ! nat (depth st - 1)) (prec c), depth := depth st - 1\<rparr>)"
  by (auto simp add: step_def Let_def)

lemma step_cases [consumes 1, case_names budget fault accept gl_ok gl_declined not_finite]:
  assumes "step ops gl f c st = r"
  obtains
    "\<not> stopping st" "eval st \<ge> eval_limit c - 1" "r = Inr (st\<lparr>stopping := True\<rparr>)"
  | "stopping st \<or> eval st < eval_limit c - 1" "\<not> in_stack st (depth st - 1)" "r = Inl OutOfBounds"
  | "stopping st \<or> eval st < eval_limit c - 1" "in_stack st (depth st - 1)" "accept_test ops c st"
      "r = Inr (st\<lparr>s := acb_add ops (s st) (vs st ! nat (depth st - 1)) (prec c),
                   depth := depth st - 1\<rparr>)"
  | feval t1 p1 t2 where
      "\<not> stopping st" "eval st < eval_limit c - 1" "in_stack st (depth st - 1)"
      "\<not> accept_test ops c st" "acb_is_finite ops (vs st ! nat (depth st - 1))"
      "gl_attempt gl f c st = (feval, t1, p1)"
      "feval > 0"
      "t2 = (if acb_is_real ops (vs st ! nat (depth st - 1)) then t1\<lparr>acb_imagref := arb_zero ops\<rparr> else t1)"
      "r = Inr (st\<lparr>eval := eval st + feval, param := p1,
                   s := acb_add ops (s st) t2 (prec c),
                   new_tol := mag_max (new_tol st)
                      (mag_mul_2exp_si ops (acb_get_mag_lower ops t2) (- goal c)),
                   depth := depth st - 1\<rparr>)"
  | feval t1 p1 where
      "\<not> stopping st" "eval st < eval_limit c - 1" "in_stack st (depth st - 1)"
      "\<not> accept_test ops c st" "acb_is_finite ops (vs st ! nat (depth st - 1))"
      "gl_attempt gl f c st = (feval, t1, p1)"
      "feval \<le> 0"
      "r = stop_or_bisect ops f c (st\<lparr>eval := eval st + feval, param := p1\<rparr>)"
  | "\<not> stopping st" "eval st < eval_limit c - 1" "in_stack st (depth st - 1)"
      "\<not> accept_test ops c st" "\<not> acb_is_finite ops (vs st ! nat (depth st - 1))"
      "r = stop_or_bisect ops f c st"
proof (cases "\<not> stopping st \<and> eval st \<ge> eval_limit c - 1")
  case True
  then show ?thesis using assms that(1) by (simp add: step_def)
next
  case nb: False
  show ?thesis
  proof (cases "in_stack st (depth st - 1)")
    case False
    then show ?thesis using assms nb that(2) by (auto simp add: step_def)
  next
    case ins: True
    show ?thesis
    proof (cases "accept_test ops c st")
      case True
      then show ?thesis using assms nb ins that(3) by (auto simp add: step_def Let_def)
    next
      case na: False
      then have ns: "\<not> stopping st" by (auto simp add: accept_test_def Let_def)
      with nb have ev: "eval st < eval_limit c - 1" by auto
      show ?thesis
      proof (cases "acb_is_finite ops (vs st ! nat (depth st - 1))")
        case False
        then show ?thesis using assms nb ins na ns ev that(6) by (auto simp add: step_def Let_def)
      next
        case fin: True
        obtain feval t1 p1 where g: "gl_attempt gl f c st = (feval, t1, p1)" by (metis prod_cases3)
        show ?thesis
        proof (cases "feval > 0")
          case True
          have "r = Inr (st\<lparr>eval := eval st + feval, param := p1,
                   s := acb_add ops (s st) (if acb_is_real ops (vs st ! nat (depth st - 1)) then t1\<lparr>acb_imagref := arb_zero ops\<rparr> else t1) (prec c),
                   new_tol := mag_max (new_tol st)
                      (mag_mul_2exp_si ops (acb_get_mag_lower ops (if acb_is_real ops (vs st ! nat (depth st - 1)) then t1\<lparr>acb_imagref := arb_zero ops\<rparr> else t1)) (- goal c)),
                   depth := depth st - 1\<rparr>)"
            using assms nb ins na fin g True by (simp add: step_def Let_def)
          then show ?thesis using that(4)[OF ns ev ins na fin g True refl] by simp
        next
          case False
          then have "r = stop_or_bisect ops f c (st\<lparr>eval := eval st + feval, param := p1\<rparr>)"
            using assms nb ins na fin g by (simp add: step_def Let_def)
          then show ?thesis using that(5)[OF ns ev ins na fin g] False by simp
        qed
      qed
    qed
  qed
qed

lemma stack_inv_top: "stack_inv c st \<Longrightarrow> 1 \<le> depth st \<Longrightarrow> in_stack st (depth st - 1)"
  by (auto simp add: stack_inv_def in_stack_def in_vec_def)

lemma stack_inv_next:
  "stack_inv c st \<Longrightarrow> depth st < depth_limit c - 1 \<Longrightarrow> in_stack st (depth st)"
  by (auto simp add: stack_inv_def in_stack_def in_vec_def)

lemma bisect_eq:
  assumes ins: "in_stack st (depth st - 1)" "in_stack st (depth st)"
    and i: "i = nat (depth st - 1)" and j: "j = nat (depth st)"
    and m: "mid = acb_mul_2exp_si ops (acb_add ops (as st ! i) (bs st ! i) (prec c)) (- 1)"
    and ql: "quad_simple ops f (param st) (as st ! i) mid (prec c) = (vl, p1)"
    and qr: "quad_simple ops f p1 mid (bs st ! i) (prec c) = (vr, p2)"
    and sw: "sw = (mag_hypot ops (arb_radref (acb_realref vl)) (arb_radref (acb_imagref vl))
                  > mag_hypot ops (arb_radref (acb_realref vr)) (arb_radref (acb_imagref vr)))"
  shows "bisect ops f c st =
     Inr (st\<lparr>as := (if sw then (as st)[j := as st ! i, i := mid] else (as st)[j := mid]),
              bs := (if sw then (bs st)[j := mid, i := bs st ! i] else (bs st)[j := bs st ! i, i := mid]),
              vs := (if sw then (vs st)[j := vl, i := vr] else (vs st)[i := vl, j := vr]),
              new_tol := mag_max (new_tol st)
                 (mag_mul_2exp_si ops (acb_get_mag_lower ops (if sw then vl else vr)) (- goal c)),
              depth := depth st + 1,
              depth_max := max (depth st + 1) (depth_max st),
              eval := eval st + 2,
              param := p2\<rparr>)"
proof -
  have d1: "1 \<le> depth st" using ins(1) by (simp add: in_stack_def in_vec_def)
  have ij: "i \<noteq> j" "j \<noteq> i" using i j d1 by auto
  have li: "i < length (as st)" "i < length (bs st)" "i < length (vs st)"
    using ins(1) i by (auto simp add: in_stack_def in_vec_def)
  have lj: "j < length (as st)" "j < length (bs st)" "j < length (vs st)"
    using ins(2) j by (auto simp add: in_stack_def in_vec_def)
  have a1: "((as st)[j := mid]) ! i = as st ! i" "((as st)[j := mid]) ! j = mid"
    using ij li lj by simp_all
  have b2: "((bs st)[j := bs st ! i, i := mid]) ! i = mid"
           "((bs st)[j := bs st ! i, i := mid]) ! j = bs st ! i"
    using ij li lj by simp_all
  have v2: "((vs st)[i := vl, j := vr]) ! i = vl" "((vs st)[i := vl, j := vr]) ! j = vr"
    using ij li lj by simp_all
  have cmp: "(mag_cmp (mag_hypot ops (arb_radref (acb_realref vl)) (arb_radref (acb_imagref vl)))
                (mag_hypot ops (arb_radref (acb_realref vr)) (arb_radref (acb_imagref vr))) > 0) = sw"
    unfolding sw mag_cmp_def by auto
  have sa: "vec_swap ((as st)[j := mid]) j i = (as st)[j := as st ! i, i := mid]"
    unfolding vec_swap_def using a1 ij li lj by (simp add: list_update_overwrite)
  have sb: "vec_swap ((bs st)[j := bs st ! i, i := mid]) j i = (bs st)[j := mid, i := bs st ! i]"
    unfolding vec_swap_def using b2 ij li lj
    by (simp add: list_update_overwrite list_update_swap[of j i])
  have sv: "vec_swap ((vs st)[i := vl, j := vr]) j i = (vs st)[j := vl, i := vr]"
    unfolding vec_swap_def using v2 ij li lj
    by (simp add: list_update_overwrite list_update_swap[of j i])
  have top: "(if sw then (vs st)[j := vl, i := vr] else (vs st)[i := vl, j := vr]) ! j
               = (if sw then vl else vr)"
    using ij li lj by simp
  show ?thesis
    unfolding bisect_def Let_def
    unfolding i[symmetric] j[symmetric] m[symmetric] 
    using ins
    apply (simp only: if_True if_False not_not simp_thms a1 b2 m[symmetric] ql qr prod.case v2 cmp sa sb sv top)
    done
qed

lemma bisect_fields:
  assumes "in_stack st (depth st - 1)" "in_stack st (depth st)"
  shows "\<exists>st'. bisect ops f c st = Inr st' \<and> depth st' = depth st + 1 \<and> eval st' = eval st + 2
           \<and> stopping st' = stopping st \<and> s st' = s st
           \<and> depth_max st' = max (depth st + 1) (depth_max st)
           \<and> length (as st') = length (as st) \<and> length (bs st') = length (bs st)
           \<and> length (vs st') = length (vs st)
           \<and> new_tol st \<le> new_tol st'"
proof -
  define i where "i = nat (depth st - 1)"
  define j where "j = nat (depth st)"
  define mid where "mid = acb_mul_2exp_si ops (acb_add ops (as st ! i) (bs st ! i) (prec c)) (- 1)"
  obtain vl p1 where ql: "quad_simple ops f (param st) (as st ! i) mid (prec c) = (vl, p1)"
    by (cases "quad_simple ops f (param st) (as st ! i) mid (prec c)")
  obtain vr p2 where qr: "quad_simple ops f p1 mid (bs st ! i) (prec c) = (vr, p2)"
    by (cases "quad_simple ops f p1 mid (bs st ! i) (prec c)")
  show ?thesis
    unfolding bisect_eq[OF assms i_def j_def mid_def ql qr refl]
    by (simp add: mag_max_def)
qed

lemma stop_or_bisect_inv:
  assumes "stack_inv c st" "1 \<le> depth st"
  shows "\<exists>st'. stop_or_bisect ops f c st = Inr st' \<and> stack_inv c st'"
proof (cases "depth st \<ge> depth_limit c - 1")
  case True
  then show ?thesis using assms by (simp add: stop_or_bisect_def stack_inv_def)
next
  case False
  then have lt: "depth st < depth_limit c - 1" by simp
  from bisect_fields[OF stack_inv_top[OF assms] stack_inv_next[OF assms(1) lt], of ops f c]
  obtain st' where b: "bisect ops f c st = Inr st'" "depth st' = depth st + 1"
     "length (as st') = length (as st)" "length (bs st') = length (bs st)"
     "length (vs st') = length (vs st)" by blast
  then have "stack_inv c st'" using assms lt by (simp add: stack_inv_def)
  then show ?thesis using b lt by (simp add: stop_or_bisect_def)
qed

lemma stack_inv_upd [simp]:
  "stack_inv c (st\<lparr>eval := e\<rparr>) = stack_inv c st"
  "stack_inv c (st\<lparr>param := p\<rparr>) = stack_inv c st"
  "stack_inv c (st\<lparr>stopping := b\<rparr>) = stack_inv c st"
  "stack_inv c (st\<lparr>s := x\<rparr>) = stack_inv c st"
  "stack_inv c (st\<lparr>new_tol := m\<rparr>) = stack_inv c st"
  by (simp_all add: stack_inv_def)

lemma stack_inv_pop: "stack_inv c st \<Longrightarrow> 1 \<le> depth st \<Longrightarrow> stack_inv c (st\<lparr>depth := depth st - 1\<rparr>)"
  by (auto simp add: stack_inv_def)

lemma step_inv:
  assumes "stack_inv c st" "1 \<le> depth st"
  shows "\<exists>st'. step ops gl f c st = Inr st' \<and> stack_inv c st'"
proof -
  obtain r where r: "step ops gl f c st = r" by simp
  from r show ?thesis
  proof (cases rule: step_cases)
    case budget
    then show ?thesis using r assms by simp
  next
    case fault
    then show ?thesis using stack_inv_top[OF assms] by simp
  next
    case accept
    then show ?thesis using r assms by (simp add: stack_inv_def)
  next
    case (gl_ok feval t1 p1 t2)
    then show ?thesis using r assms stack_inv_pop[OF assms] by (simp add: stack_inv_def)
  next
    case (gl_declined feval t1 p1)
    then show ?thesis using r stop_or_bisect_inv[of c "st\<lparr>eval := eval st + feval, param := p1\<rparr>" ops f] assms
      by simp
  next
    case not_finite
    then show ?thesis using r stop_or_bisect_inv[of c st ops f] assms by simp
  qed
qed

lemma run_steps_inv:
  "stack_inv c st \<Longrightarrow> \<exists>st'. run_steps ops gl f c n st = Inr st' \<and> stack_inv c st'"
proof (induction n arbitrary: st)
  case 0
  then show ?case by simp
next
  case (Suc n)
  show ?case
  proof (cases "1 \<le> depth st")
    case True
    from step_inv[OF Suc.prems True, of ops gl f] obtain st1 where
      s1: "step ops gl f c st = Inr st1" "stack_inv c st1" by blast
    from Suc.IH[OF s1(2)] show ?thesis using True s1 by simp
  next
    case False
    then show ?thesis using Suc.prems by simp
  qed
qed

lemma resolve_depth_limit_pos: "1 \<le> depth_limit (resolve_limits g dg ev dp fl pr)"
  by (simp add: resolve_limits_def Let_def)

lemma init_inv:
  assumes "1 \<le> depth_limit c"
  shows "\<exists>st0. integrate_init ops f p a b tol c = Inr st0 \<and> stack_inv c st0 \<and> depth st0 = 1
     \<and> eval st0 = 1 \<and> \<not> stopping st0 \<and> depth_max st0 = 1"
  using assms
  by (simp add: integrate_init_def Let_def in_vec_def stack_inv_def split: prod.splits)


lemma integrate_init_eq:
  assumes dl: "1 \<le> depth_limit c"
    and q: "quad_simple ops f p a b (prec c) = (v, p1)"
  shows "integrate_init ops f p a b tol c =
     Inr \<lparr>as = (replicate (nat (depth_limit c)) (acb_zero ops))[0 := a],
          bs = (replicate (nat (depth_limit c)) (acb_zero ops))[0 := b],
          vs = (replicate (nat (depth_limit c)) (acb_zero ops))[0 := v],
          s = acb_zero ops,
          new_tol = max tol (mag_mul_2exp_si ops (acb_get_mag_lower ops v) (- goal c)),
          depth = 1, depth_max = 1, eval = 1, stopping = False, param = p1\<rparr>"
proof -
  have n: "0 < nat (depth_limit c)" using dl by simp
  then have nth: "(replicate (nat (depth_limit c)) (acb_zero ops))[0 := x] ! 0 = x" for x
    by simp
  show ?thesis
    unfolding integrate_init_def Let_def nth
    using n by (simp add: in_vec_def q mag_max_def)
qed

lemma integrate_init_Inr:
  assumes "integrate_init ops f p a b tol c = Inr st0"
  shows "1 \<le> depth_limit c"
  using assms by (auto simp add: integrate_init_def Let_def in_vec_def split: if_splits)

section \<open>The loop and its iterations\<close>


lemma run_steps_add:
  "run_steps ops gl f c (n + k) st =
     (case run_steps ops gl f c n st of
        Inl e \<Rightarrow> Inl e
      | Inr st1 \<Rightarrow> run_steps ops gl f c k st1)"
proof (induction n arbitrary: st)
  case 0
  show ?case by simp
next
  case (Suc n)
  show ?case
  proof (cases "depth st \<ge> 1")
    case False
    then have "run_steps ops gl f c m st = Inr st" for m by (cases m) simp_all
    then show ?thesis by (simp del: run_steps.simps)
  next
    case True
    then show ?thesis using Suc.IH by (simp split: sum.splits)
  qed
qed

lemma main_loop_run_steps:
  "main_loop ops gl f c st = Some r \<Longrightarrow>
     \<exists>n. run_steps ops gl f c n st = r \<and> (case r of Inl e \<Rightarrow> True | Inr st' \<Rightarrow> depth st' < 1)"
proof (induction rule: main_loop.raw_induct[rotated, consumes 1])
  case (1 main_loop' ops gl f c st r)
  show ?case
  proof (cases "depth st \<ge> 1")
    case False
    then have "r = Inr st" using 1(2) by simp
    then have "run_steps ops gl f c 0 st = r \<and> (case r of Inl e \<Rightarrow> True | Inr st' \<Rightarrow> depth st' < 1)"
      using False by simp
    then show ?thesis by blast
  next
    case True
    show ?thesis
    proof (cases "step ops gl f c st")
      case (Inl e)
      then have "r = Inl e" using 1(2) True by simp
      then have "run_steps ops gl f c (Suc 0) st = r \<and> (case r of Inl e \<Rightarrow> True | Inr st' \<Rightarrow> depth st' < 1)"
        using True Inl by simp
      then show ?thesis by blast
    next
      case (Inr st1)
      then have "main_loop' ops gl f c st1 = Some r" using 1(2) True by simp
      from 1(1)[OF this] obtain n where
        "run_steps ops gl f c n st1 = r \<and> (case r of Inl e \<Rightarrow> True | Inr st' \<Rightarrow> depth st' < 1)"
        by blast
      then have "run_steps ops gl f c (Suc n) st = r \<and> (case r of Inl e \<Rightarrow> True | Inr st' \<Rightarrow> depth st' < 1)"
        using True Inr by simp
      then show ?thesis by blast
    qed
  qed
qed

lemma run_steps_main_loop:
  "run_steps ops gl f c n st = Inr st' \<Longrightarrow> depth st' < 1 \<Longrightarrow> main_loop ops gl f c st = Some (Inr st')"
proof (induction n arbitrary: st)
  case 0
  then show ?case by (simp add: main_loop.simps)
next
  case (Suc n)
  show ?case
  proof (cases "depth st \<ge> 1")
    case False
    then show ?thesis using Suc.prems by (simp add: main_loop.simps)
  next
    case True
    then obtain st1 where s1: "step ops gl f c st = Inr st1" "run_steps ops gl f c n st1 = Inr st'"
      using Suc.prems by (auto split: sum.splits)
    from Suc.IH[OF s1(2) Suc.prems(2)] show ?thesis
      using True s1 by (subst main_loop.simps) simp
  qed
qed

lemma main_loop_no_fault:
  assumes "stack_inv c st"
  shows "main_loop ops gl f c st \<noteq> Some (Inl e)"
proof
  assume "main_loop ops gl f c st = Some (Inl e)"
  from main_loop_run_steps[OF this] obtain n where "run_steps ops gl f c n st = Inl e" by blast
  with run_steps_inv[OF assms, of ops gl f n] show False by auto
qed


section \<open>Termination\<close>

lemma stop_or_bisect_cases [consumes 2, case_names stop bisect]:
  assumes "stack_inv c st" "1 \<le> depth st"
  obtains
    "depth st \<ge> depth_limit c - 1" "stop_or_bisect ops f c st = Inr (st\<lparr>stopping := True\<rparr>)"
  | st' where "depth st < depth_limit c - 1" "stop_or_bisect ops f c st = Inr st'"
      "bisect ops f c st = Inr st'"
      "depth st' = depth st + 1" "eval st' = eval st + 2" "stopping st' = stopping st"
      "s st' = s st" "new_tol st \<le> new_tol st'" "stack_inv c st'"
proof (cases "depth st \<ge> depth_limit c - 1")
  case True
  then show ?thesis using that(1) by (simp add: stop_or_bisect_def)
next
  case False
  then have lt: "depth st < depth_limit c - 1" by simp
  from bisect_fields[OF stack_inv_top[OF assms] stack_inv_next[OF assms(1) lt], of ops f c]
  obtain st' where b: "bisect ops f c st = Inr st'" "depth st' = depth st + 1"
     "eval st' = eval st + 2" "stopping st' = stopping st" "s st' = s st"
     "new_tol st \<le> new_tol st'"
     "length (as st') = length (as st)" "length (bs st') = length (bs st)"
     "length (vs st') = length (vs st)" by blast
  then have "stack_inv c st'" using assms lt by (simp add: stack_inv_def)
  then show ?thesis using b lt that(2) by (simp add: stop_or_bisect_def)
qed


lemma step_decreases:
  assumes inv: "stack_inv c st" and d: "1 \<le> depth st" and g: "gl_count_nonneg gl"
    and st: "step ops gl f c st = Inr st'"
  shows "(st', st) \<in> measures [\<lambda>x. if stopping x then 0 else 1,
                                 \<lambda>x. nat (eval_limit c - eval x),
                                 \<lambda>x. nat (depth x)]"
  using st
proof (cases rule: step_cases)
  case budget
  then show ?thesis by auto
next
  case fault
  then show ?thesis by simp
next
  case accept
  then show ?thesis using d by auto
next
  case (gl_ok feval t1 p1 t2)
  then show ?thesis by auto
next
  case (gl_declined feval t1 p1)
  have "0 \<le> fst (gl_attempt gl f c st)" using g unfolding gl_count_nonneg_def gl_attempt_def by blast
  with gl_declined have fe: "feval = 0" by simp
  let ?st1 = "st\<lparr>eval := eval st + feval, param := p1\<rparr>"
  have i1: "stack_inv c ?st1" "1 \<le> depth ?st1" using inv d by simp_all
  from i1 show ?thesis
  proof (cases rule: stop_or_bisect_cases[where ops=ops and f=f])
    case stop
    then show ?thesis using gl_declined by auto
  next
    case (bisect st2)
    then have "st' = st2" using gl_declined by simp
    then show ?thesis using bisect gl_declined fe by auto
  qed
next
  case not_finite
  from inv d show ?thesis
  proof (cases rule: stop_or_bisect_cases[where ops=ops and f=f])
    case stop
    then show ?thesis using not_finite by auto
  next
    case (bisect st2)
    then have "st' = st2" using not_finite by simp
    then show ?thesis using bisect not_finite by auto
  qed
qed

lemma run_steps_terminates:
  assumes g: "gl_count_nonneg gl"
  shows "stack_inv c st \<Longrightarrow> \<exists>n st'. run_steps ops gl f c n st = Inr st' \<and> depth st' = 0"
proof (induction st rule: wf_induct_rule[OF wf_measures[of "[\<lambda>x. if stopping x then 0 else 1,
                                 \<lambda>x. nat (eval_limit c - eval x),
                                 \<lambda>x. nat (depth x)]"]])
  case (1 st)
  show ?case
  proof (cases "1 \<le> depth st")
    case False
    then have "depth st = 0" using 1(2) by (simp add: stack_inv_def)
    then have "run_steps ops gl f c 0 st = Inr st \<and> depth st = 0" by simp
    then show ?thesis by blast
  next
    case True
    from step_inv[OF 1(2) True, of ops gl f] obtain st1 where
      s1: "step ops gl f c st = Inr st1" "stack_inv c st1" by blast
    from 1(1)[OF step_decreases[OF 1(2) True g s1(1)] s1(2)] obtain n st' where
      "run_steps ops gl f c n st1 = Inr st' \<and> depth st' = 0" by blast
    then have "run_steps ops gl f c (Suc n) st = Inr st' \<and> depth st' = 0"
      using True s1 by simp
    then show ?thesis by blast
  qed
qed

lemma stopping_drains:
  "stack_inv c st \<Longrightarrow> stopping st \<Longrightarrow>
     \<exists>st'. run_steps ops gl f c k st = Inr st' \<and> stopping st' \<and> param st' = param st
       \<and> eval st' = eval st \<and> as st' = as st \<and> bs st' = bs st \<and> vs st' = vs st
       \<and> new_tol st' = new_tol st
       \<and> depth st' = max 0 (depth st - int k)
       \<and> s st' = foldl (\<lambda>x i. acb_add ops x (vs st ! i) (prec c)) (s st)
                    (rev [nat (depth st - int k) ..< nat (depth st)])"
proof (induction k arbitrary: st)
  case 0
  then show ?case by (simp add: stack_inv_def)
next
  case (Suc k)
  show ?case
  proof (cases "1 \<le> depth st")
    case False
    then have "depth st = 0" using Suc.prems by (simp add: stack_inv_def)
    then show ?thesis using Suc.prems by simp
  next
    case True
    let ?st1 = "st\<lparr>s := acb_add ops (s st) (vs st ! nat (depth st - 1)) (prec c), depth := depth st - 1\<rparr>"
    have acc: "accept_test ops c st" using Suc.prems(2) by (simp add: accept_test_def Let_def)
    have s1: "step ops gl f c st = Inr ?st1"
      using step_accept[OF _ stack_inv_top[OF Suc.prems(1) True] acc] Suc.prems(2) by simp
    have "stack_inv c ?st1" "stopping ?st1" using Suc.prems True by (simp_all add: stack_inv_def)
    from Suc.IH[OF this] obtain st' where
      ih: "run_steps ops gl f c k ?st1 = Inr st'" "stopping st'" "param st' = param ?st1"
       "eval st' = eval ?st1" "as st' = as ?st1" "bs st' = bs ?st1" "vs st' = vs ?st1"
       "new_tol st' = new_tol ?st1"
       "depth st' = max 0 (depth ?st1 - int k)"
       "s st' = foldl (\<lambda>x i. acb_add ops x (vs ?st1 ! i) (prec c)) (s ?st1)
                    (rev [nat (depth ?st1 - int k) ..< nat (depth ?st1)])" by blast
    have n: "nat (depth st) = Suc (nat (depth st - 1))" using True by simp
    have le: "nat (depth st - int (Suc k)) \<le> nat (depth st - 1)" by simp
    have l: "rev [nat (depth st - int (Suc k)) ..< nat (depth st)]
               = nat (depth st - 1) # rev [nat (depth st - 1 - int k) ..< nat (depth st - 1)]"
      unfolding n upt_Suc_append[OF le] by (simp add: algebra_simps)
    have sm: "s st' = foldl (\<lambda>x i. acb_add ops x (vs st ! i) (prec c)) (s st)
                    (rev [nat (depth st - int (Suc k)) ..< nat (depth st)])"
      unfolding l using ih(10) by simp
    have "run_steps ops gl f c (Suc k) st = Inr st' \<and> stopping st' \<and> param st' = param st
       \<and> eval st' = eval st \<and> as st' = as st \<and> bs st' = bs st \<and> vs st' = vs st
       \<and> new_tol st' = new_tol st
       \<and> depth st' = max 0 (depth st - int (Suc k))"
      using True s1 ih(1-9) by auto
    with sm show ?thesis by blast
  qed
qed

section \<open>The evaluation counter\<close>





section \<open>The five kinds of iteration\<close>

lemma step_kinds [consumes 3, case_names budget accept gl_ok depth_stop bisect]:
  assumes inv: "stack_inv c st" and d: "1 \<le> depth st"
    and st: "step ops gl f c st = Inr st'"
  obtains
    "\<not> stopping st" "eval_limit c - 1 \<le> eval st" "st' = st\<lparr>stopping := True\<rparr>"
  | "stopping st \<or> eval st \<le> eval_limit c - 2" "accept_test ops c st"
      "st' = st\<lparr>s := acb_add ops (s st) (vs st ! nat (depth st - 1)) (prec c),
                 depth := depth st - 1\<rparr>"
  | feval t1 p1 t2 where
      "\<not> stopping st" "eval st \<le> eval_limit c - 2" "\<not> accept_test ops c st"
      "acb_is_finite ops (vs st ! nat (depth st - 1))"
      "gl_attempt gl f c st = (feval, t1, p1)" "0 < feval"
      "t2 = (if acb_is_real ops (vs st ! nat (depth st - 1)) then t1\<lparr>acb_imagref := arb_zero ops\<rparr> else t1)"
      "st' = st\<lparr>eval := eval st + feval, param := p1,
                 s := acb_add ops (s st) t2 (prec c),
                 new_tol := mag_max (new_tol st)
                    (mag_mul_2exp_si ops (acb_get_mag_lower ops t2) (- goal c)),
                 depth := depth st - 1\<rparr>"
  | e1 p1 where
      "\<not> stopping st" "eval st \<le> eval_limit c - 2" "\<not> accept_test ops c st"
      "depth_limit c - 1 \<le> depth st" "e1 \<le> eval st"
      "st' = st\<lparr>eval := e1, param := p1, stopping := True\<rparr>"
  | st1 where
      "\<not> stopping st" "eval st \<le> eval_limit c - 2" "\<not> accept_test ops c st"
      "depth st \<le> depth_limit c - 2"
      "st1 = st \<and> \<not> acb_is_finite ops (vs st ! nat (depth st - 1))
       \<or> acb_is_finite ops (vs st ! nat (depth st - 1)) \<and> fst (gl_attempt gl f c st) \<le> 0
          \<and> st1 = st\<lparr>eval := eval st + fst (gl_attempt gl f c st),
                        param := snd (snd (gl_attempt gl f c st))\<rparr>"
      "in_stack st1 (depth st1 - 1)" "in_stack st1 (depth st1)"
      "bisect ops f c st1 = Inr st'"
      "depth st' = depth st + 1" "eval st' = eval st1 + 2" "\<not> stopping st'"
      "s st' = s st" "new_tol st \<le> new_tol st'" "stack_inv c st'"
  using st
proof (cases rule: step_cases)
  case budget
  then show ?thesis using that(1) by blast
next
  case fault
  then show ?thesis by simp
next
  case accept
  moreover have "stopping st \<or> eval st \<le> eval_limit c - 2" using accept by auto
  ultimately show ?thesis using that(2) by blast
next
  case (gl_ok feval t1 p1 t2)
  moreover have "eval st \<le> eval_limit c - 2" using gl_ok by simp
  ultimately show ?thesis using that(3)[of feval t1 p1 t2] by blast
next
  case (gl_declined feval t1 p1)
  let ?st1 = "st\<lparr>eval := eval st + feval, param := p1\<rparr>"
  have i1: "stack_inv c ?st1" "1 \<le> depth ?st1" using inv d by simp_all
  from i1 show ?thesis
  proof (cases rule: stop_or_bisect_cases[where ops=ops and f=f])
    case stop
    then have "st' = st\<lparr>eval := eval st + feval, param := p1, stopping := True\<rparr>"
      using gl_declined by simp
    moreover have "eval st + feval \<le> eval st" "depth_limit c - 1 \<le> depth st"
      using gl_declined stop by simp_all
    moreover have "eval st \<le> eval_limit c - 2" using gl_declined by simp
    ultimately show ?thesis
      using that(4)[of "eval st + feval" p1] gl_declined(1,4) by blast
  next
    case (bisect st2)
    then have e: "st' = st2" using gl_declined by simp
    have lt: "depth ?st1 < depth_limit c - 1" using bisect by simp
    have g: "fst (gl_attempt gl f c st) = feval" "snd (snd (gl_attempt gl f c st)) = p1"
      using gl_declined by simp_all
    show ?thesis
    proof (rule that(5)[of ?st1])
      show "\<not> stopping st" by (rule gl_declined(1))
      show "eval st \<le> eval_limit c - 2" using gl_declined by simp
      show "\<not> accept_test ops c st" by (rule gl_declined(4))
      show "depth st \<le> depth_limit c - 2" using bisect by simp
      show "?st1 = st \<and> \<not> acb_is_finite ops (vs st ! nat (depth st - 1))
       \<or> acb_is_finite ops (vs st ! nat (depth st - 1)) \<and> fst (gl_attempt gl f c st) \<le> 0
          \<and> ?st1 = st\<lparr>eval := eval st + fst (gl_attempt gl f c st),
                        param := snd (snd (gl_attempt gl f c st))\<rparr>"
        unfolding g using gl_declined(5,7) by blast
      show "in_stack ?st1 (depth ?st1 - 1)" by (rule stack_inv_top[OF i1])
      show "in_stack ?st1 (depth ?st1)" by (rule stack_inv_next[OF i1(1) lt])
      show "bisect ops f c ?st1 = Inr st'" using bisect e by simp
      show "depth st' = depth st + 1" using bisect e by simp
      show "eval st' = eval ?st1 + 2" using bisect e by simp
      show "\<not> stopping st'" using bisect e gl_declined(1) by simp
      show "s st' = s st" using bisect e by simp
      show "new_tol st \<le> new_tol st'" using bisect e by simp
      show "stack_inv c st'" using bisect e by simp
    qed
  qed
next
  case not_finite
  from inv d show ?thesis
  proof (cases rule: stop_or_bisect_cases[where ops=ops and f=f])
    case stop
    then have "st' = st\<lparr>eval := eval st, param := param st, stopping := True\<rparr>"
      using not_finite by simp
    moreover have "eval st \<le> eval_limit c - 2" using not_finite by simp
    ultimately show ?thesis
      using that(4)[of "eval st" "param st"] not_finite(1,4) stop(1) by blast
  next
    case (bisect st2)
    then have e: "st' = st2" using not_finite by simp
    have lt: "depth st < depth_limit c - 1" using bisect by simp
    show ?thesis
    proof (rule that(5)[of st])
      show "\<not> stopping st" by (rule not_finite(1))
      show "eval st \<le> eval_limit c - 2" using not_finite by simp
      show "\<not> accept_test ops c st" by (rule not_finite(4))
      show "depth st \<le> depth_limit c - 2" using bisect by simp
      show "st = st \<and> \<not> acb_is_finite ops (vs st ! nat (depth st - 1))
       \<or> acb_is_finite ops (vs st ! nat (depth st - 1)) \<and> fst (gl_attempt gl f c st) \<le> 0
          \<and> st = st\<lparr>eval := eval st + fst (gl_attempt gl f c st),
                        param := snd (snd (gl_attempt gl f c st))\<rparr>"
        using not_finite(5) by blast
      show "in_stack st (depth st - 1)" by (rule stack_inv_top[OF inv d])
      show "in_stack st (depth st)" by (rule stack_inv_next[OF inv lt])
      show "bisect ops f c st = Inr st'" using bisect e by simp
      show "depth st' = depth st + 1" using bisect e by simp
      show "eval st' = eval st + 2" using bisect e by simp
      show "\<not> stopping st'" using bisect e not_finite(1) by simp
      show "s st' = s st" using bisect e by simp
      show "new_tol st \<le> new_tol st'" using bisect e by simp
      show "stack_inv c st'" using bisect e by simp
    qed
  qed
qed


section \<open>Soundness of the arithmetic, one operation at a time\<close>

lemma sound_addD:
  assumes ss: "sound_substrate rmem ops"
    and a: "acb_contains rmem X x" and b: "acb_contains rmem Y y"
  shows "acb_contains rmem (acb_add ops X Y p) (x + y)"
  by (rule ss[unfolded sound_substrate_def, THEN conjunct1, rule_format, OF conjI[OF a b]])

lemma sound_subD:
  assumes ss: "sound_substrate rmem ops"
    and a: "acb_contains rmem X x" and b: "acb_contains rmem Y y"
  shows "acb_contains rmem (acb_sub ops X Y p) (x - y)"
  by (rule ss[unfolded sound_substrate_def, THEN conjunct2, THEN conjunct1, rule_format,
        OF conjI[OF a b]])

lemma sound_mulD:
  assumes ss: "sound_substrate rmem ops"
    and a: "acb_contains rmem X x" and b: "acb_contains rmem Y y"
  shows "acb_contains rmem (acb_mul ops X Y p) (x * y)"
  by (rule ss[unfolded sound_substrate_def, THEN conjunct2, THEN conjunct2, THEN conjunct1,
        rule_format, OF conjI[OF a b]])

lemma sound_halfD:
  assumes ss: "sound_substrate rmem ops" and a: "acb_contains rmem X x"
  shows "acb_contains rmem (acb_mul_2exp_si ops X (- 1)) (x / 2)"
  by (rule ss[unfolded sound_substrate_def, THEN conjunct2, THEN conjunct2, THEN conjunct2,
        THEN conjunct1, rule_format, OF a])

lemma sound_doubleD:
  assumes ss: "sound_substrate rmem ops" and a: "acb_contains rmem X x"
  shows "acb_contains rmem (acb_mul_2exp_si ops X 1) (2 * x)"
  by (rule ss[unfolded sound_substrate_def, THEN conjunct2, THEN conjunct2, THEN conjunct2,
        THEN conjunct2, THEN conjunct1, rule_format, OF a])

lemma sound_zeroD:
  assumes ss: "sound_substrate rmem ops"
  shows "acb_contains rmem (acb_zero ops) 0"
  using ss[unfolded sound_substrate_def, THEN conjunct2, THEN conjunct2, THEN conjunct2,
        THEN conjunct2, THEN conjunct2, THEN conjunct1]
  by (simp add: acb_contains_def acb_zero_def)

lemma sound_errorD:
  assumes ss: "sound_substrate rmem ops"
    and a: "rmem x X" and b: "rmem d D" and e: "\<bar>e\<bar> \<le> \<bar>d\<bar>"
  shows "rmem (x + e) (arb_add_error_mag ops X (arb_get_mag ops D))"
  by (rule ss[unfolded sound_substrate_def, THEN conjunct2, THEN conjunct2, THEN conjunct2,
        THEN conjunct2, THEN conjunct2, THEN conjunct2, THEN conjunct1, rule_format,
        OF conjI[OF a conjI[OF b e]]])

lemma sound_realD:
  assumes ss: "sound_substrate rmem ops"
    and a: "acb_is_finite ops X" and b: "acb_is_real ops X" and c: "acb_contains rmem X z"
  shows "Im z = 0"
  by (rule ss[unfolded sound_substrate_def, THEN conjunct2, THEN conjunct2, THEN conjunct2,
        THEN conjunct2, THEN conjunct2, THEN conjunct2, THEN conjunct2, rule_format,
        OF conjI[OF a conjI[OF b c]]])

lemma seg_alg:
  "p + of_real t * (q - p) = (p + q) / 2 + of_real (2 * t - 1) * ((q - p) / 2)" for p :: complex
  by (simp add: field_simps)


section \<open>The direct rule encloses the integral\<close>

lemma mid_sound:
  assumes ss: "sound_substrate rmem ops"
    and p: "acb_contains rmem A p" and q: "acb_contains rmem B q"
  shows "acb_contains rmem (acb_mul_2exp_si ops (acb_add ops A B pr) (- 1)) ((p + q) / 2)"
  by (rule sound_halfD[OF ss sound_addD[OF ss p q]])

lemma quad_simple_sound:
  assumes ss: "sound_substrate rmem ops" and sf: "sound_integrand rmem f F"
    and si: "segment_integral rmem F I"
  shows "encloses rmem I A B (fst (quad_simple ops f pm A B pr))"
  unfolding encloses_def
proof (intro allI impI, elim conjE)
  fix p q
  assume p: "acb_contains rmem A p" and q: "acb_contains rmem B q"
  define delta where "delta = acb_mul_2exp_si ops (acb_sub ops B A pr) (- 1)"
  define mid where "mid = acb_mul_2exp_si ops (acb_add ops A B pr) (- 1)"
  define wide where "wide = \<lparr>acb_realref =
                    arb_add_error_mag ops (acb_realref mid) (arb_get_mag ops (acb_realref delta)),
                  acb_imagref =
                    arb_add_error_mag ops (acb_imagref mid) (arb_get_mag ops (acb_imagref delta))\<rparr>"
  define d where "d = (q - p) / 2"
  define m where "m = (p + q) / 2"
  have dD: "acb_contains rmem delta d"
    unfolding delta_def d_def by (rule sound_halfD[OF ss sound_subD[OF ss q p]])
  have mM: "acb_contains rmem mid m"
    unfolding mid_def m_def by (rule mid_sound[OF ss p q])
  have seg: "acb_contains rmem wide (p + of_real t * (q - p))" if t: "0 \<le> t" "t \<le> 1" for t
  proof -
    have z: "p + of_real t * (q - p) = m + of_real (2 * t - 1) * d"
      unfolding m_def d_def by (rule seg_alg)
    have a: "\<bar>2 * t - 1\<bar> \<le> 1" using t by (simp add: abs_le_iff)
    have re: "\<bar>(2 * t - 1) * Re d\<bar> \<le> \<bar>Re d\<bar>"
      unfolding abs_mult using mult_right_mono[OF a abs_ge_zero[of "Re d"]] by simp
    have im: "\<bar>(2 * t - 1) * Im d\<bar> \<le> \<bar>Im d\<bar>"
      unfolding abs_mult using mult_right_mono[OF a abs_ge_zero[of "Im d"]] by simp
    have r1: "rmem (Re m) (acb_realref mid)" "rmem (Im m) (acb_imagref mid)"
      using mM by (simp_all add: acb_contains_def)
    have r2: "rmem (Re d) (acb_realref delta)" "rmem (Im d) (acb_imagref delta)"
      using dD by (simp_all add: acb_contains_def)
    have "rmem (Re m + (2 * t - 1) * Re d) (acb_realref wide)"
      unfolding wide_def using sound_errorD[OF ss r1(1) r2(1) re] by simp
    moreover have "rmem (Im m + (2 * t - 1) * Im d) (acb_imagref wide)"
      unfolding wide_def using sound_errorD[OF ss r1(2) r2(2) im] by simp
    ultimately show ?thesis unfolding z by (simp add: acb_contains_def)
  qed
  have "\<forall>t. 0 \<le> t \<and> t \<le> 1 \<longrightarrow>
          acb_contains rmem (fst (f wide pm 0 pr)) (F (p + of_real t * (q - p)))"
  proof (intro allI impI, elim conjE)
    fix t :: real
    assume "0 \<le> t" "t \<le> 1"
    from seg[OF this] show "acb_contains rmem (fst (f wide pm 0 pr)) (F (p + of_real t * (q - p)))"
      by (rule sf[unfolded sound_integrand_def, rule_format])
  qed
  from si[unfolded segment_integral_def, THEN conjunct2, THEN spec, THEN spec, THEN spec,
      THEN mp, OF this]
  obtain y where y: "acb_contains rmem (fst (f wide pm 0 pr)) y" "I p q = y * (q - p)"
    by blast
  have "I p q = 2 * (y * d)" unfolding y(2) d_def by simp
  moreover have "acb_contains rmem (acb_mul_2exp_si ops (acb_mul ops (fst (f wide pm 0 pr)) delta pr) 1)
                   (2 * (y * d))"
    by (rule sound_doubleD[OF ss sound_mulD[OF ss y(1) dD]])
  moreover have "fst (quad_simple ops f pm A B pr)
                   = acb_mul_2exp_si ops (acb_mul ops (fst (f wide pm 0 pr)) delta pr) 1"
    unfolding quad_simple_def Let_def delta_def[symmetric] mid_def[symmetric] wide_def[symmetric]
    by (simp split: prod.splits)
  ultimately show "acb_contains rmem (fst (quad_simple ops f pm A B pr)) (I p q)" by simp
qed


section \<open>The invariant under a pop and under a bisection\<close>

lemma sound_state_same:
  assumes "sound_state rmem I w st"
    and "as st' = as st" "bs st' = bs st" "vs st' = vs st" "s st' = s st" "depth st' = depth st"
  shows "sound_state rmem I w st'"
  using assms by (simp add: sound_state_def)

lemma sound_state_pop:
  assumes ss: "sound_substrate rmem ops"
    and inv: "sound_state rmem I w st" and d: "1 \<le> depth st"
    and enc: "encloses rmem I (as st ! nat (depth st - 1)) (bs st ! nat (depth st - 1)) T"
    and e: "as st' = as st" "bs st' = bs st" "vs st' = vs st" "depth st' = depth st - 1"
           "s st' = acb_add ops (s st) T pr"
  shows "sound_state rmem I w st'"
proof -
  define k where "k = nat (depth st - 1)"
  have n: "nat (depth st) = Suc k" "nat (depth st') = k" using d e(4) k_def by simp_all
  from inv obtain \<sigma> pts where
    en: "\<forall>i < Suc k. encloses rmem I (as st ! i) (bs st ! i) (vs st ! i)"
    and sg: "acb_contains rmem (s st) \<sigma>"
    and pt: "\<forall>i < Suc k. acb_contains rmem (as st ! i) (fst (pts i))
                        \<and> acb_contains rmem (bs st ! i) (snd (pts i))"
    and w: "w = \<sigma> + (\<Sum>i < Suc k. I (fst (pts i)) (snd (pts i)))"
    unfolding sound_state_def n by blast
  have top: "acb_contains rmem T (I (fst (pts k)) (snd (pts k)))"
    using enc pt unfolding encloses_def k_def[symmetric] by blast
  have s': "acb_contains rmem (s st') (\<sigma> + I (fst (pts k)) (snd (pts k)))"
    unfolding e(5) by (rule sound_addD[OF ss sg top])
  have w': "w = (\<sigma> + I (fst (pts k)) (snd (pts k))) + (\<Sum>i < k. I (fst (pts i)) (snd (pts i)))"
    unfolding w by (simp add: algebra_simps)
  have en': "\<forall>i < k. encloses rmem I (as st' ! i) (bs st' ! i) (vs st' ! i)"
    unfolding e using en by simp
  have pt': "\<forall>i < k. acb_contains rmem (as st' ! i) (fst (pts i))
                        \<and> acb_contains rmem (bs st' ! i) (snd (pts i))"
    unfolding e using pt by simp
  show ?thesis unfolding sound_state_def n using en' s' pt' w' by blast
qed

lemma sound_state_split:
  assumes si: "segment_integral rmem F I"
    and inv: "sound_state rmem I w st" and n: "nat (depth st) = Suc k"
    and n': "nat (depth st') = Suc (Suc k)" and s': "s st' = s st"
    and low: "\<forall>l<k. as st' ! l = as st ! l \<and> bs st' ! l = bs st ! l \<and> vs st' ! l = vs st ! l"
    and mid: "\<forall>p q. acb_contains rmem (as st ! k) p \<and> acb_contains rmem (bs st ! k) q
                 \<longrightarrow> acb_contains rmem M ((p + q) / 2)"
    and recs: "(as st' ! k = as st ! k \<and> bs st' ! k = M
                 \<and> as st' ! Suc k = M \<and> bs st' ! Suc k = bs st ! k)
             \<or> (as st' ! Suc k = as st ! k \<and> bs st' ! Suc k = M
                 \<and> as st' ! k = M \<and> bs st' ! k = bs st ! k)"
    and enc: "encloses rmem I (as st' ! k) (bs st' ! k) (vs st' ! k)"
             "encloses rmem I (as st' ! Suc k) (bs st' ! Suc k) (vs st' ! Suc k)"
  shows "sound_state rmem I w st'"
proof -
  from inv obtain \<sigma> pts where
    en: "\<forall>i < Suc k. encloses rmem I (as st ! i) (bs st ! i) (vs st ! i)"
    and sg: "acb_contains rmem (s st) \<sigma>"
    and pt: "\<forall>i < Suc k. acb_contains rmem (as st ! i) (fst (pts i))
                        \<and> acb_contains rmem (bs st ! i) (snd (pts i))"
    and w: "w = \<sigma> + (\<Sum>i < Suc k. I (fst (pts i)) (snd (pts i)))"
    unfolding sound_state_def n by blast
  define p where "p = fst (pts k)"
  define q where "q = snd (pts k)"
  define m where "m = (p + q) / 2"
  have pq: "acb_contains rmem (as st ! k) p" "acb_contains rmem (bs st ! k) q"
    using pt unfolding p_def q_def by simp_all
  have mM: "acb_contains rmem M m" using mid pq unfolding m_def by blast
  have cut: "I p q = I p m + I m q"
    unfolding m_def by (rule si[unfolded segment_integral_def, THEN conjunct1, rule_format])
  have en': "\<forall>i < Suc (Suc k). encloses rmem I (as st' ! i) (bs st' ! i) (vs st' ! i)"
  proof (intro allI impI)
    fix i assume "i < Suc (Suc k)"
    then consider "i < k" | "i = k" | "i = Suc k" by linarith
    then show "encloses rmem I (as st' ! i) (bs st' ! i) (vs st' ! i)"
    proof cases
      case 1
      then show ?thesis using low en by simp
    next
      case 2
      then show ?thesis using enc(1) by simp
    next
      case 3
      then show ?thesis using enc(2) by simp
    qed
  qed
  have lowsum: "(\<Sum>i < k. I (fst (pts' i)) (snd (pts' i))) = (\<Sum>i < k. I (fst (pts i)) (snd (pts i)))"
    if "\<forall>i<k. pts' i = pts i" for pts' :: "nat \<Rightarrow> complex \<times> complex"
    using that by (intro sum.cong) simp_all
  have wk: "w = \<sigma> + ((\<Sum>i < k. I (fst (pts i)) (snd (pts i))) + I p q)"
    unfolding w p_def q_def by simp
  from recs show ?thesis
  proof
    assume r: "as st' ! k = as st ! k \<and> bs st' ! k = M
                 \<and> as st' ! Suc k = M \<and> bs st' ! Suc k = bs st ! k"
    define pts' where "pts' = pts(k := (p, m), Suc k := (m, q))"
    have eq: "\<forall>i<k. pts' i = pts i" unfolding pts'_def by simp
    have pk: "pts' k = (p, m)" "pts' (Suc k) = (m, q)" unfolding pts'_def by simp_all
    have pt': "\<forall>i < Suc (Suc k). acb_contains rmem (as st' ! i) (fst (pts' i))
                        \<and> acb_contains rmem (bs st' ! i) (snd (pts' i))"
    proof (intro allI impI)
      fix i assume "i < Suc (Suc k)"
      then consider "i < k" | "i = k" | "i = Suc k" by linarith
      then show "acb_contains rmem (as st' ! i) (fst (pts' i))
                        \<and> acb_contains rmem (bs st' ! i) (snd (pts' i))"
      proof cases
        case 1
        then show ?thesis using low pt eq by simp
      next
        case 2
        then show ?thesis using r pk pq mM by simp
      next
        case 3
        then show ?thesis using r pk pq mM by simp
      qed
    qed
    have w': "w = \<sigma> + (\<Sum>i < Suc (Suc k). I (fst (pts' i)) (snd (pts' i)))"
      unfolding sum.lessThan_Suc lowsum[OF eq] pk wk cut by (simp add: algebra_simps)
    show ?thesis unfolding sound_state_def n' s' using en' sg pt' w' by blast
  next
    assume r: "as st' ! Suc k = as st ! k \<and> bs st' ! Suc k = M
                 \<and> as st' ! k = M \<and> bs st' ! k = bs st ! k"
    define pts' where "pts' = pts(k := (m, q), Suc k := (p, m))"
    have eq: "\<forall>i<k. pts' i = pts i" unfolding pts'_def by simp
    have pk: "pts' k = (m, q)" "pts' (Suc k) = (p, m)" unfolding pts'_def by simp_all
    have pt': "\<forall>i < Suc (Suc k). acb_contains rmem (as st' ! i) (fst (pts' i))
                        \<and> acb_contains rmem (bs st' ! i) (snd (pts' i))"
    proof (intro allI impI)
      fix i assume "i < Suc (Suc k)"
      then consider "i < k" | "i = k" | "i = Suc k" by linarith
      then show "acb_contains rmem (as st' ! i) (fst (pts' i))
                        \<and> acb_contains rmem (bs st' ! i) (snd (pts' i))"
      proof cases
        case 1
        then show ?thesis using low pt eq by simp
      next
        case 2
        then show ?thesis using r pk pq mM by simp
      next
        case 3
        then show ?thesis using r pk pq mM by simp
      qed
    qed
    have w': "w = \<sigma> + (\<Sum>i < Suc (Suc k). I (fst (pts' i)) (snd (pts' i)))"
      unfolding sum.lessThan_Suc lowsum[OF eq] pk wk cut by (simp add: algebra_simps)
    show ?thesis unfolding sound_state_def n' s' using en' sg pt' w' by blast
  qed
qed


section \<open>Every iteration keeps the invariant\<close>

lemma bisect_shape:
  assumes ins: "in_stack st (depth st - 1)" "in_stack st (depth st)"
    and b: "bisect ops f c st = Inr st'"
    and k: "k = nat (depth st - 1)"
    and m: "M = acb_mul_2exp_si ops (acb_add ops (as st ! k) (bs st ! k) (prec c)) (- 1)"
  shows "\<exists>p p1.
      ((as st' ! k = as st ! k \<and> bs st' ! k = M
          \<and> vs st' ! k = fst (quad_simple ops f p (as st ! k) M (prec c))
          \<and> as st' ! Suc k = M \<and> bs st' ! Suc k = bs st ! k
          \<and> vs st' ! Suc k = fst (quad_simple ops f p1 M (bs st ! k) (prec c)))
       \<or> (as st' ! Suc k = as st ! k \<and> bs st' ! Suc k = M
          \<and> vs st' ! Suc k = fst (quad_simple ops f p (as st ! k) M (prec c))
          \<and> as st' ! k = M \<and> bs st' ! k = bs st ! k
          \<and> vs st' ! k = fst (quad_simple ops f p1 M (bs st ! k) (prec c))))
     \<and> (\<forall>l<k. as st' ! l = as st ! l \<and> bs st' ! l = bs st ! l \<and> vs st' ! l = vs st ! l)
     \<and> s st' = s st \<and> depth st' = depth st + 1"
proof -
  have d1: "1 \<le> depth st" using ins(1) by (simp add: in_stack_def in_vec_def)
  define j where "j = nat (depth st)"
  have jk: "j = Suc k" using j_def k d1 by simp
  obtain vl p1 where ql: "quad_simple ops f (param st) (as st ! k) M (prec c) = (vl, p1)"
    by (cases "quad_simple ops f (param st) (as st ! k) M (prec c)")
  obtain vr p2 where qr: "quad_simple ops f p1 M (bs st ! k) (prec c) = (vr, p2)"
    by (cases "quad_simple ops f p1 M (bs st ! k) (prec c)")
  define sw where "sw = (mag_hypot ops (arb_radref (acb_realref vl)) (arb_radref (acb_imagref vl))
                  > mag_hypot ops (arb_radref (acb_realref vr)) (arb_radref (acb_imagref vr)))"
  have ij: "k \<noteq> j" "j \<noteq> k" using jk by auto
  have li: "k < length (as st)" "k < length (bs st)" "k < length (vs st)"
    using ins(1) k by (auto simp add: in_stack_def in_vec_def)
  have lj: "j < length (as st)" "j < length (bs st)" "j < length (vs st)"
    using ins(2) j_def by (auto simp add: in_stack_def in_vec_def)
  have st': "st' = st\<lparr>as := (if sw then (as st)[j := as st ! k, k := M] else (as st)[j := M]),
              bs := (if sw then (bs st)[j := M, k := bs st ! k] else (bs st)[j := bs st ! k, k := M]),
              vs := (if sw then (vs st)[j := vl, k := vr] else (vs st)[k := vl, j := vr]),
              new_tol := mag_max (new_tol st)
                 (mag_mul_2exp_si ops (acb_get_mag_lower ops (if sw then vl else vr)) (- goal c)),
              depth := depth st + 1,
              depth_max := max (depth st + 1) (depth_max st),
              eval := eval st + 2,
              param := p2\<rparr>"
    using b unfolding bisect_eq[OF ins k j_def m ql qr sw_def] by simp
  have A: "as st' ! j = (if sw then as st ! k else M)" "as st' ! k = (if sw then M else as st ! k)"
    unfolding st' using ij li lj by simp_all
  have B: "bs st' ! j = (if sw then M else bs st ! k)" "bs st' ! k = (if sw then bs st ! k else M)"
    unfolding st' using ij li lj by simp_all
  have V: "vs st' ! j = (if sw then vl else vr)" "vs st' ! k = (if sw then vr else vl)"
    unfolding st' using ij li lj by simp_all
  have low: "\<forall>l<k. as st' ! l = as st ! l \<and> bs st' ! l = bs st ! l \<and> vs st' ! l = vs st ! l"
  proof (intro allI impI)
    fix l assume "l < k"
    then have "l \<noteq> k" "l \<noteq> j" using jk by auto
    then show "as st' ! l = as st ! l \<and> bs st' ! l = bs st ! l \<and> vs st' ! l = vs st ! l"
      unfolding st' by simp
  qed
  have vq: "vl = fst (quad_simple ops f (param st) (as st ! k) M (prec c))"
           "vr = fst (quad_simple ops f p1 M (bs st ! k) (prec c))"
    using ql qr by simp_all
  have rest: "s st' = s st \<and> depth st' = depth st + 1" unfolding st' by simp
  have recs: "(as st' ! k = as st ! k \<and> bs st' ! k = M
          \<and> vs st' ! k = fst (quad_simple ops f (param st) (as st ! k) M (prec c))
          \<and> as st' ! Suc k = M \<and> bs st' ! Suc k = bs st ! k
          \<and> vs st' ! Suc k = fst (quad_simple ops f p1 M (bs st ! k) (prec c)))
       \<or> (as st' ! Suc k = as st ! k \<and> bs st' ! Suc k = M
          \<and> vs st' ! Suc k = fst (quad_simple ops f (param st) (as st ! k) M (prec c))
          \<and> as st' ! k = M \<and> bs st' ! k = bs st ! k
          \<and> vs st' ! k = fst (quad_simple ops f p1 M (bs st ! k) (prec c)))"
    using A B V unfolding jk vq[symmetric] by (cases sw) simp_all
  from recs low rest show ?thesis by blast
qed

lemma step_sound:
  assumes ss: "sound_substrate rmem ops" and sf: "sound_integrand rmem f F"
    and si: "segment_integral rmem F I" and sg: "sound_gl rmem gl f I"
    and inv: "stack_inv c st" and d: "1 \<le> depth st"
    and snd: "sound_state rmem I w st"
    and st: "step ops gl f c st = Inr st'"
  shows "sound_state rmem I w st'"
proof -
  define k where "k = nat (depth st - 1)"
  have n: "nat (depth st) = Suc k" using d k_def by simp
  have enc_top: "encloses rmem I (as st ! k) (bs st ! k) (vs st ! k)"
    using snd unfolding sound_state_def n by simp
  from inv d st show ?thesis
  proof (cases rule: step_kinds)
    case budget
    show ?thesis by (rule sound_state_same[OF snd]) (simp_all add: budget)
  next
    case accept
    show ?thesis
      by (rule sound_state_pop[OF ss snd d enc_top[unfolded k_def]]) (simp_all add: accept)
  next
    case (gl_ok feval t1 p1 t2)
    have g: "0 < fst (gl f (param st) (as st ! k) (bs st ! k) (new_tol st) (deg_limit c) (flags c) (prec c))"
            "t1 = fst (snd (gl f (param st) (as st ! k) (bs st ! k) (new_tol st) (deg_limit c) (flags c) (prec c)))"
      using gl_ok(5,6) unfolding gl_attempt_def k_def by simp_all
    have e1: "encloses rmem I (as st ! k) (bs st ! k) t1"
      unfolding encloses_def
    proof (intro allI impI, elim conjE)
      fix p q assume "acb_contains rmem (as st ! k) p" "acb_contains rmem (bs st ! k) q"
      with g(1) show "acb_contains rmem t1 (I p q)"
        unfolding g(2) using sg[unfolded sound_gl_def, rule_format] by blast
    qed
    have e2: "encloses rmem I (as st ! k) (bs st ! k) t2"
    proof (cases "acb_is_real ops (vs st ! k)")
      case False
      then show ?thesis using e1 gl_ok(7) unfolding k_def by simp
    next
      case True
      then have t2: "t2 = t1\<lparr>acb_imagref := arb_zero ops\<rparr>" using gl_ok(7) unfolding k_def by simp
      have z: "rmem 0 (arb_zero ops)"
        using sound_zeroD[OF ss] by (simp add: acb_contains_def acb_zero_def)
      show ?thesis unfolding encloses_def
      proof (intro allI impI, elim conjE)
        fix p q assume pq: "acb_contains rmem (as st ! k) p" "acb_contains rmem (bs st ! k) q"
        have "acb_contains rmem (vs st ! k) (I p q)" using enc_top pq unfolding encloses_def by blast
        from sound_realD[OF ss gl_ok(4)[unfolded k_def[symmetric]] True this]
        have im: "Im (I p q) = 0" .
        have "acb_contains rmem t1 (I p q)" using e1 pq unfolding encloses_def by blast
        then show "acb_contains rmem t2 (I p q)"
          unfolding t2 acb_contains_def using im z by simp
      qed
    qed
    show ?thesis
      by (rule sound_state_pop[OF ss snd d e2[unfolded k_def]]) (simp_all add: gl_ok)
  next
    case (depth_stop e1 p1)
    show ?thesis by (rule sound_state_same[OF snd]) (simp_all add: depth_stop)
  next
    case (bisect st1)
    have same: "as st1 = as st" "bs st1 = bs st" "vs st1 = vs st" "depth st1 = depth st"
      "s st1 = s st"
      using bisect(5) by auto
    define M where "M = acb_mul_2exp_si ops (acb_add ops (as st ! k) (bs st ! k) (prec c)) (- 1)"
    from bisect_shape[OF bisect(6,7,8), of k M] obtain p p1 where
      recs: "(as st' ! k = as st ! k \<and> bs st' ! k = M
          \<and> vs st' ! k = fst (quad_simple ops f p (as st ! k) M (prec c))
          \<and> as st' ! Suc k = M \<and> bs st' ! Suc k = bs st ! k
          \<and> vs st' ! Suc k = fst (quad_simple ops f p1 M (bs st ! k) (prec c)))
       \<or> (as st' ! Suc k = as st ! k \<and> bs st' ! Suc k = M
          \<and> vs st' ! Suc k = fst (quad_simple ops f p (as st ! k) M (prec c))
          \<and> as st' ! k = M \<and> bs st' ! k = bs st ! k
          \<and> vs st' ! k = fst (quad_simple ops f p1 M (bs st ! k) (prec c)))"
      and low: "\<forall>l<k. as st' ! l = as st ! l \<and> bs st' ! l = bs st ! l \<and> vs st' ! l = vs st ! l"
      and s': "s st' = s st" and d': "depth st' = depth st + 1"
      unfolding same k_def M_def by blast
    have n': "nat (depth st') = Suc (Suc k)" using d' n d by simp
    have mid: "\<forall>p q. acb_contains rmem (as st ! k) p \<and> acb_contains rmem (bs st ! k) q
                 \<longrightarrow> acb_contains rmem M ((p + q) / 2)"
      unfolding M_def using mid_sound[OF ss] by blast
    have recs': "(as st' ! k = as st ! k \<and> bs st' ! k = M
                 \<and> as st' ! Suc k = M \<and> bs st' ! Suc k = bs st ! k)
             \<or> (as st' ! Suc k = as st ! k \<and> bs st' ! Suc k = M
                 \<and> as st' ! k = M \<and> bs st' ! k = bs st ! k)"
      using recs by blast
    have enc: "encloses rmem I (as st' ! k) (bs st' ! k) (vs st' ! k)"
             "encloses rmem I (as st' ! Suc k) (bs st' ! Suc k) (vs st' ! Suc k)"
      using recs quad_simple_sound[OF ss sf si] by auto
    show ?thesis
      by (rule sound_state_split[OF si snd n n' s' low mid recs' enc])
  qed
qed


section \<open>The invariant along a run\<close>

lemma run_steps_sound:
  assumes ss: "sound_substrate rmem ops" and sf: "sound_integrand rmem f F"
    and si: "segment_integral rmem F I" and sg: "sound_gl rmem gl f I"
  shows "stack_inv c st \<Longrightarrow> sound_state rmem I w st \<Longrightarrow> run_steps ops gl f c n st = Inr st'
     \<Longrightarrow> sound_state rmem I w st'"
proof (induction n arbitrary: st)
  case 0
  then show ?case by simp
next
  case (Suc n)
  show ?case
  proof (cases "1 \<le> depth st")
    case False
    then show ?thesis using Suc.prems by simp
  next
    case True
    from step_inv[OF Suc.prems(1) True, of ops gl f] obtain st1 where
      s1: "step ops gl f c st = Inr st1" "stack_inv c st1" by blast
    have r: "run_steps ops gl f c n st1 = Inr st'" using Suc.prems(3) True s1(1) by simp
    from step_sound[OF ss sf si sg Suc.prems(1) True Suc.prems(2) s1(1)]
    have "sound_state rmem I w st1" .
    from Suc.IH[OF s1(2) this r] show ?thesis .
  qed
qed

lemma init_sound:
  assumes ss: "sound_substrate rmem ops" and sf: "sound_integrand rmem f F"
    and si: "segment_integral rmem F I"
    and x: "acb_contains rmem a x" and y: "acb_contains rmem b y"
    and i: "integrate_init ops f param0 a b tol c = Inr st0"
  shows "sound_state rmem I (I x y) st0"
proof -
  obtain v p1 where q: "quad_simple ops f param0 a b (prec c) = (v, p1)"
    by (cases "quad_simple ops f param0 a b (prec c)")
  have dl: "1 \<le> depth_limit c" by (rule integrate_init_Inr[OF i])
  then have n: "0 < nat (depth_limit c)" by simp
  have st0: "st0 = \<lparr>as = (replicate (nat (depth_limit c)) (acb_zero ops))[0 := a],
          bs = (replicate (nat (depth_limit c)) (acb_zero ops))[0 := b],
          vs = (replicate (nat (depth_limit c)) (acb_zero ops))[0 := v],
          s = acb_zero ops,
          new_tol = max tol (mag_mul_2exp_si ops (acb_get_mag_lower ops v) (- goal c)),
          depth = 1, depth_max = 1, eval = 1, stopping = False, param = p1\<rparr>"
    using i unfolding integrate_init_eq[OF dl q] by simp
  have f0: "as st0 ! 0 = a" "bs st0 ! 0 = b" "vs st0 ! 0 = v" "s st0 = acb_zero ops"
    "nat (depth st0) = Suc 0"
    unfolding st0 using n by simp_all
  have enc: "encloses rmem I a b v"
    using quad_simple_sound[OF ss sf si, of a b param0 "prec c"] q by simp
  have z: "acb_contains rmem (acb_zero ops) 0" by (rule sound_zeroD[OF ss])
  define pts :: "nat \<Rightarrow> complex \<times> complex" where "pts = (\<lambda>i. (x, y))"
  have "acb_contains rmem (s st0) 0
         \<and> (\<forall>i < nat (depth st0). acb_contains rmem (as st0 ! i) (fst (pts i))
                                   \<and> acb_contains rmem (bs st0 ! i) (snd (pts i)))
         \<and> I x y = 0 + (\<Sum>i < nat (depth st0). I (fst (pts i)) (snd (pts i)))"
    unfolding f0 pts_def using z x y f0 by simp
  moreover have "\<forall>i < nat (depth st0). encloses rmem I (as st0 ! i) (bs st0 ! i) (vs st0 ! i)"
    unfolding f0(5) using enc f0 by simp
  ultimately show ?thesis unfolding sound_state_def by blast
qed

lemma sound_state_final:
  assumes "sound_state rmem I w st" "depth st = 0"
  shows "acb_contains rmem (s st) w"
  using assms unfolding sound_state_def by auto



section \<open>The substrate without rounding is sound\<close>

lemma rb_add_mem: "rb_mem x X \<Longrightarrow> rb_mem y Y \<Longrightarrow> rb_mem (x + y) (rb_add X Y)"
  by (simp add: rb_mem_def rb_add_def rb_def)

lemma rb_sub_mem: "rb_mem x X \<Longrightarrow> rb_mem y Y \<Longrightarrow> rb_mem (x - y) (rb_sub X Y)"
  by (simp add: rb_mem_def rb_sub_def rb_def)

lemma rb_mul_mem:
  assumes "rb_mem x X" "rb_mem y Y"
  shows "rb_mem (x * y) (rb_mul X Y)"
proof -
  define mx rx my ry where "mx = arb_midref X" and "rx = arb_radref X"
    and "my = arb_midref Y" and "ry = arb_radref Y"
  have a: "\<bar>x - mx\<bar> \<le> rx" "\<bar>y - my\<bar> \<le> ry"
    using assms unfolding rb_mem_def mx_def rx_def my_def ry_def by simp_all
  have e: "x * y - mx * my = mx * (y - my) + my * (x - mx) + (x - mx) * (y - my)"
    by (simp add: algebra_simps)
  have "\<bar>x * y - mx * my\<bar> \<le> \<bar>mx * (y - my)\<bar> + \<bar>my * (x - mx)\<bar> + \<bar>(x - mx) * (y - my)\<bar>"
    unfolding e by (rule order_trans[OF abs_triangle_ineq add_right_mono[OF abs_triangle_ineq]])
  also have "\<dots> \<le> \<bar>mx\<bar> * ry + \<bar>my\<bar> * rx + rx * ry"
    unfolding abs_mult
    by (intro add_mono mult_left_mono mult_mono a abs_ge_zero order_trans[OF abs_ge_zero a(1)])
  finally show ?thesis
    unfolding rb_mem_def rb_mul_def rb_def mx_def rx_def my_def ry_def by simp
qed

lemma exact_add_mem:
  "acb_contains rb_mem X x \<Longrightarrow> acb_contains rb_mem Y y
     \<Longrightarrow> acb_contains rb_mem (acb_add exact_ops X Y p) (x + y)"
  by (simp add: acb_contains_def exact_ops_def cb_def rb_add_mem)

lemma exact_sub_mem:
  "acb_contains rb_mem X x \<Longrightarrow> acb_contains rb_mem Y y
     \<Longrightarrow> acb_contains rb_mem (acb_sub exact_ops X Y p) (x - y)"
  by (simp add: acb_contains_def exact_ops_def cb_def rb_sub_mem)

lemma exact_mul_mem:
  "acb_contains rb_mem X x \<Longrightarrow> acb_contains rb_mem Y y
     \<Longrightarrow> acb_contains rb_mem (acb_mul exact_ops X Y p) (x * y)"
  by (simp add: acb_contains_def exact_ops_def cb_def rb_sub_mem rb_add_mem rb_mul_mem)

lemma rb_half_mem: "rb_mem x X \<Longrightarrow> rb_mem (x / 2) (rb_scale X (- 1))"
proof -
  have h: "\<bar>x - m\<bar> \<le> r \<Longrightarrow> \<bar>x / 2 - m * (1 / 2)\<bar> \<le> r * (1 / 2)" for m r :: real
    by arith
  assume "rb_mem x X"
  then show ?thesis
    unfolding rb_mem_def rb_scale_def rb_def two_exp_def using h by simp
qed

lemma rb_double_mem: "rb_mem x X \<Longrightarrow> rb_mem (2 * x) (rb_scale X 1)"
proof -
  have h: "\<bar>x - m\<bar> \<le> r \<Longrightarrow> \<bar>2 * x - m * 2\<bar> \<le> r * 2" for m r :: real
    by arith
  assume "rb_mem x X"
  then show ?thesis
    unfolding rb_mem_def rb_scale_def rb_def two_exp_def using h by simp
qed

lemma exact_half_mem:
  "acb_contains rb_mem X x \<Longrightarrow> acb_contains rb_mem (acb_mul_2exp_si exact_ops X (- 1)) (x / 2)"
  by (simp add: acb_contains_def exact_ops_def cb_def rb_half_mem)

lemma exact_double_mem:
  "acb_contains rb_mem X x \<Longrightarrow> acb_contains rb_mem (acb_mul_2exp_si exact_ops X 1) (2 * x)"
  by (simp add: acb_contains_def exact_ops_def cb_def rb_double_mem)

lemma exact_error_mem:
  "rb_mem x X \<Longrightarrow> rb_mem d D \<Longrightarrow> \<bar>e\<bar> \<le> \<bar>d\<bar>
     \<Longrightarrow> rb_mem (x + e) (arb_add_error_mag exact_ops X (arb_get_mag exact_ops D))"
  by (simp add: exact_ops_def rb_def rb_mem_def)

lemma exact_real_mem:
  "acb_is_real exact_ops X \<Longrightarrow> acb_contains rb_mem X z \<Longrightarrow> Im z = 0"
  by (simp add: exact_ops_def acb_contains_def rb_mem_def)

lemma exact_ops_sound: "sound_substrate rb_mem exact_ops"
  unfolding sound_substrate_def
proof (intro conjI allI impI; (elim conjE)?)
  show "rb_mem 0 (arb_zero exact_ops)" by (simp add: exact_ops_def rb_def rb_mem_def)
qed (simp_all add: exact_add_mem exact_sub_mem exact_mul_mem exact_half_mem exact_double_mem
       exact_error_mem exact_real_mem)


section \<open>The contracts on a concrete integrand and rule\<close>

text \<open>
  For \<open>F(z) = z\<close> the integral along the segment from \<open>p\<close> to \<open>q\<close> is
  \<open>(q\<^sup>2 - p\<^sup>2) / 2\<close>; its mean value is the value at the midpoint, so the midpoint
  rule is exact.
\<close>

lemma f_ident_sound: "sound_integrand rb_mem f_ident (\<lambda>z. z)"
  by (simp add: sound_integrand_def f_ident_def)

lemma ident_integral: "segment_integral rb_mem (\<lambda>z. z) (\<lambda>p q. (q * q - p * p) / 2)"
  unfolding segment_integral_def
proof (intro conjI allI impI)
  fix p q :: complex
  show "(q * q - p * p) / 2 = ((p + q) / 2 * ((p + q) / 2) - p * p) / 2
           + (q * q - (p + q) / 2 * ((p + q) / 2)) / 2"
    by (simp add: field_simps)
next
  fix p q :: complex and Y :: cball
  assume a: "\<forall>t. 0 \<le> t \<and> t \<le> 1 \<longrightarrow> acb_contains rb_mem Y (p + complex_of_real t * (q - p))"
  have "(0::real) \<le> 1 / 2 \<and> (1::real) / 2 \<le> 1" by simp
  with a have c: "acb_contains rb_mem Y (p + complex_of_real (1 / 2) * (q - p))" by blast
  have e1: "p + complex_of_real (1 / 2) * (q - p) = (p + q) / 2" by (simp add: field_simps)
  have e2: "(q * q - p * p) / 2 = (p + q) / 2 * (q - p)" by (simp add: field_simps)
  show "\<exists>y. acb_contains rb_mem Y y \<and> (q * q - p * p) / 2 = y * (q - p)"
    unfolding e2 using c[unfolded e1] by blast
qed

lemma gl_midpoint_nonneg: "gl_count_nonneg gl_midpoint"
  by (simp add: gl_count_nonneg_def gl_midpoint_def Let_def split: prod.splits)

lemma gl_midpoint_sound:
  "sound_gl rb_mem gl_midpoint f_ident (\<lambda>p q. (q * q - p * p) / 2)"
  unfolding sound_gl_def
proof (intro allI impI, elim conjE)
  fix p :: unit and A B :: cball and tol :: real and dl fl pr :: int and x y :: complex
  assume x: "acb_contains rb_mem A x" and y: "acb_contains rb_mem B y"
  have m: "acb_contains rb_mem (acb_mul_2exp_si exact_ops (acb_add exact_ops A B pr) (- 1))
             ((x + y) / 2)"
    by (rule exact_half_mem[OF exact_add_mem[OF x y]])
  have c: "acb_contains rb_mem
          (acb_mul exact_ops (acb_mul_2exp_si exact_ops (acb_add exact_ops A B pr) (- 1))
             (acb_sub exact_ops B A pr) pr)
          ((x + y) / 2 * (y - x))"
    by (rule exact_mul_mem[OF m exact_sub_mem[OF y x]])
  have e1: "(y * y - x * x) / 2 = (x + y) / 2 * (y - x)" by (simp add: field_simps)
  have e2: "fst (snd (gl_midpoint f_ident p A B tol dl fl pr))
      = acb_mul exact_ops (acb_mul_2exp_si exact_ops (acb_add exact_ops A B pr) (- 1))
             (acb_sub exact_ops B A pr) pr"
    by (simp add: gl_midpoint_def f_ident_def Let_def)
  show "acb_contains rb_mem (fst (snd (gl_midpoint f_ident p A B tol dl fl pr)))
                     ((y * y - x * x) / 2)"
    unfolding e1 e2 by (rule c)
qed

lemma pt_mem: "acb_contains rb_mem (pt x) (complex_of_real x)"
  by (simp add: acb_contains_def pt_def cb_def rb_def rb_mem_def)



section \<open>Defaults of the limits\<close>

lemma half_floor: "\<lfloor>(1 / 2) * real_of_int g + 10\<rfloor> = g div 2 + 10"
proof -
  have "(1 / 2) * real_of_int g + 10 = real_of_int (g + 20) / real_of_int 2" by simp
  then have "\<lfloor>(1 / 2) * real_of_int g + 10\<rfloor> = (g + 20) div 2"
    by (simp only: floor_divide_of_int_eq)
  then show ?thesis by simp
qed

lemma round53_small: "n < 2 ^ 53 \<Longrightarrow> round53 n = n"
  by (simp add: round53_def bitlen_le_iff_power)

lemma round53_edge:
  "round53 9007199254740992 = 9007199254740992"
  "round53 9007199254740993 = 9007199254740992"
  "round53 9007199254740994 = 9007199254740994"
  by code_simp+

lemma default_deg_limit_floor:
  assumes "0 \<le> g" "g \<le> 2 ^ 53 - 18"
  shows "default_deg_limit g = g div 2 + 10"
proof -
  have g: "round53 g = g" using assms by (intro round53_small) simp
  have p: "(2::int) ^ 53 = 9007199254740992" by simp
  have "g + 20 < 2 ^ 53 \<or> g + 20 = 9007199254740992 \<or> g + 20 = 9007199254740993
          \<or> g + 20 = 9007199254740994"
    using assms unfolding p by arith
  then have "round53 (g + 20) div 2 = (g + 20) div 2"
  proof (elim disjE)
    assume "g + 20 < 2 ^ 53"
    then show ?thesis by (simp add: round53_small)
  next
    assume "g + 20 = 9007199254740992"
    then show ?thesis by (simp add: round53_edge)
  next
    assume "g + 20 = 9007199254740993"
    then show ?thesis by (simp add: round53_edge)
  next
    assume "g + 20 = 9007199254740994"
    then show ?thesis by (simp add: round53_edge)
  qed
  then show ?thesis unfolding default_deg_limit_def g by simp
qed

text \<open>
  Claim C8, as the code has it, for \<^verbatim>\<open>slong\<close> arguments whose products \<open>2 * prec\<close>
  and \<open>1000 * prec\<close> do not overflow where they are computed: a positive limit is
  used as given; a non-positive \<open>depth_limit\<close> becomes \<open>2 * prec\<close> and a non-positive
  \<open>eval_limit\<close> becomes \<open>1000 * prec\<close>, each raised to 1 when the product is below
  1; \<open>goal\<close> is raised to 0; a non-positive \<open>deg_limit\<close> becomes the value of
  \<open>0.5 * goal + 10\<close> in double precision, for the raised \<open>goal\<close>, truncated to an
  integer. Up to \<open>goal = 2^53 - 18\<close> this is \<open>0.5 * goal + 10\<close> rounded down.
\<close>

theorem resolve_limits_defaults:
  assumes "slong goal0"
    and "depth_limit0 \<le> 0 \<longrightarrow> slong (2 * prec0)"
    and "eval_limit0 \<le> 0 \<longrightarrow> slong (1000 * prec0)"
  shows "resolve_limits goal0 deg_limit0 eval_limit0 depth_limit0 flags0 prec0 =
     \<lparr>goal = max goal0 0,
      deg_limit = (if deg_limit0 \<le> 0 then round53 (round53 (max goal0 0) + 20) div 2
                   else deg_limit0),
      eval_limit = (if eval_limit0 \<le> 0 then max (1000 * prec0) 1 else eval_limit0),
      depth_limit = (if depth_limit0 \<le> 0 then max (2 * prec0) 1 else depth_limit0),
      flags = flags0, prec = prec0\<rparr>
   \<and> (deg_limit0 \<le> 0 \<and> goal0 \<le> 2 ^ 53 - 18 \<longrightarrow>
        deg_limit (resolve_limits goal0 deg_limit0 eval_limit0 depth_limit0 flags0 prec0)
          = \<lfloor>(1 / 2) * real_of_int (max goal0 0) + 10\<rfloor>)"
proof -
  have A: "resolve_limits goal0 deg_limit0 eval_limit0 depth_limit0 flags0 prec0 =
     \<lparr>goal = max goal0 0,
      deg_limit = (if deg_limit0 \<le> 0 then round53 (round53 (max goal0 0) + 20) div 2
                   else deg_limit0),
      eval_limit = (if eval_limit0 \<le> 0 then max (1000 * prec0) 1 else eval_limit0),
      depth_limit = (if depth_limit0 \<le> 0 then max (2 * prec0) 1 else depth_limit0),
      flags = flags0, prec = prec0\<rparr>"
    by (simp add: resolve_limits_def Let_def default_deg_limit_def)
  have B: "deg_limit (resolve_limits goal0 deg_limit0 eval_limit0 depth_limit0 flags0 prec0)
          = \<lfloor>(1 / 2) * real_of_int (max goal0 0) + 10\<rfloor>"
    if "deg_limit0 \<le> 0" "goal0 \<le> 2 ^ 53 - 18"
  proof -
    have "0 \<le> max goal0 0" "max goal0 0 \<le> 2 ^ 53 - 18" using that by simp_all
    from default_deg_limit_floor[OF this] show ?thesis
      unfolding half_floor using that(1) by (simp add: resolve_limits_def Let_def)
  qed
  from A B show ?thesis by blast
qed

text \<open>
  Claim C8 as it is written fails for a working precision of 0: the limits become 1,
  not \<open>2 * 0\<close> and \<open>1000 * 0\<close>. For the odd \<open>goal = 1\<close> the degree limit is 10,
  not \<open>0.5 * 1 + 10\<close>. And for \<open>goal = 2^53 - 17\<close> the double sum rounds up to
  \<open>2^52 + 2\<close>, so the degree limit is not even \<open>0.5 * goal + 10\<close> rounded down.
\<close>

theorem resolve_limits_counterexample:
  "depth_limit (resolve_limits 0 0 0 0 0 0) \<noteq> 2 * 0
   \<and> eval_limit (resolve_limits 0 0 0 0 0 0) \<noteq> 1000 * 0
   \<and> real_of_int (deg_limit (resolve_limits 1 0 0 0 0 0)) \<noteq> 0.5 * 1 + 10
   \<and> deg_limit (resolve_limits 9007199254740975 0 0 0 0 0)
        \<noteq> \<lfloor>0.5 * real_of_int 9007199254740975 + 10\<rfloor>"
proof -
  have a: "depth_limit (resolve_limits 0 0 0 0 0 0) \<noteq> 2 * 0
   \<and> eval_limit (resolve_limits 0 0 0 0 0 0) \<noteq> 1000 * 0"
    by (simp add: resolve_limits_def)
  have "deg_limit (resolve_limits 1 0 0 0 0 0) = 10" by code_simp
  then have b: "real_of_int (deg_limit (resolve_limits 1 0 0 0 0 0)) \<noteq> 0.5 * 1 + 10" by simp
  have c1: "deg_limit (resolve_limits 9007199254740975 0 0 0 0 0) = 4503599627370498"
    by code_simp
  have "0.5 * real_of_int 9007199254740975 + 10 = (1 / 2) * real_of_int 9007199254740975 + 10"
    by simp
  then have c2: "\<lfloor>0.5 * real_of_int 9007199254740975 + 10\<rfloor> = 4503599627370497"
    unfolding half_floor by simp
  from a b c1 c2 show ?thesis by simp
qed

text \<open>
  The theorem at work: \<open>goal = 1\<close> at precision 3 with every limit left to its
  default.
\<close>

theorem resolve_limits_defaults_witness:
  "slong 1 \<and> slong (2 * 3) \<and> slong (1000 * 3)
   \<and> resolve_limits 1 0 0 0 0 3 =
       \<lparr>goal = 1, deg_limit = 10, eval_limit = 3000, depth_limit = 6, flags = 0, prec = 3\<rparr>
   \<and> deg_limit (resolve_limits 1 0 0 0 0 3) = \<lfloor>(1 / 2) * real_of_int (max 1 0) + 10\<rfloor>"
proof -
  have s: "slong 1" "slong (2 * 3)" "slong (1000 * 3)" by (simp_all add: slong_def)
  have r: "round53 (round53 (max 1 0) + 20) div 2 = 10" by code_simp
  from resolve_limits_defaults[of 1 0 3 0 0 0] s
  have "resolve_limits 1 0 0 0 0 3 =
       \<lparr>goal = 1, deg_limit = 10, eval_limit = 3000, depth_limit = 6, flags = 0, prec = 3\<rparr>"
    and "deg_limit (resolve_limits 1 0 0 0 0 3) = \<lfloor>(1 / 2) * real_of_int (max 1 0) + 10\<rfloor>"
    unfolding r by simp_all
  with s show ?thesis by blast
qed



section \<open>The stack stays inside its arrays\<close>

text \<open>
  Claim C10: every access to the arrays \<open>as\<close>, \<open>bs\<close> and \<open>vs\<close> is inside their
  allocated length. The resolved \<open>depth_limit\<close> is at least 1, whatever the precision;
  the first interval is written without leaving the arrays; at every iteration of a
  run the arrays still have \<open>depth_limit\<close> entries, \<open>depth\<close> is at most
  \<open>max 1 (depth_limit - 1)\<close>, the top index \<open>depth - 1\<close> is in range and the
  iteration does not leave the arrays; an iteration that bisects starts from
  \<open>depth \<le> depth_limit - 2\<close>, writes at the index \<open>depth\<close> in range, and needs
  \<open>depth_limit \<ge> 3\<close>; and the call never ends in \<open>OutOfBounds\<close>.
\<close>

theorem stack_accesses_in_bounds:
  assumes c: "c = resolve_limits goal0 deg_limit0 eval_limit0 depth_limit0 flags0 prec0"
  shows "1 \<le> depth_limit c \<and>
     (\<exists>st0. integrate_init ops f param0 a b tol c = Inr st0 \<and>
        (\<forall>n. \<exists>st. run_steps ops gl f c n st0 = Inr st
            \<and> length (as st) = nat (depth_limit c) \<and> length (bs st) = nat (depth_limit c)
            \<and> length (vs st) = nat (depth_limit c)
            \<and> 0 \<le> depth st \<and> depth st \<le> max 1 (depth_limit c - 1)
            \<and> (1 \<le> depth st \<longrightarrow>
                  in_stack st (depth st - 1)
                  \<and> (\<exists>st'. step ops gl f c st = Inr st'
                        \<and> (depth st' = depth st + 1 \<longrightarrow>
                              depth st \<le> depth_limit c - 2 \<and> in_stack st (depth st)
                              \<and> 3 \<le> depth_limit c)))))
     \<and> (\<forall>e. integrate_run ops gl f param0 a b goal0 tol deg_limit0 eval_limit0 depth_limit0
              flags0 prec0 \<noteq> Some (Inl e))"
proof -
  have dl: "1 \<le> depth_limit c" unfolding c by (rule resolve_depth_limit_pos)
  from init_inv[OF dl, of ops f param0 a b tol] obtain st0 where
    i0: "integrate_init ops f param0 a b tol c = Inr st0" and inv0: "stack_inv c st0" by blast
  have run: "\<exists>st. run_steps ops gl f c n st0 = Inr st
            \<and> length (as st) = nat (depth_limit c) \<and> length (bs st) = nat (depth_limit c)
            \<and> length (vs st) = nat (depth_limit c)
            \<and> 0 \<le> depth st \<and> depth st \<le> max 1 (depth_limit c - 1)
            \<and> (1 \<le> depth st \<longrightarrow>
                  in_stack st (depth st - 1)
                  \<and> (\<exists>st'. step ops gl f c st = Inr st'
                        \<and> (depth st' = depth st + 1 \<longrightarrow>
                              depth st \<le> depth_limit c - 2 \<and> in_stack st (depth st)
                              \<and> 3 \<le> depth_limit c)))" for n
  proof -
    from run_steps_inv[OF inv0, of ops gl f n] obtain st where
      r: "run_steps ops gl f c n st0 = Inr st" and inv: "stack_inv c st" by blast
    have top: "in_stack st (depth st - 1)
                  \<and> (\<exists>st'. step ops gl f c st = Inr st'
                        \<and> (depth st' = depth st + 1 \<longrightarrow>
                              depth st \<le> depth_limit c - 2 \<and> in_stack st (depth st)
                              \<and> 3 \<le> depth_limit c))" if d: "1 \<le> depth st"
    proof -
      from step_inv[OF inv d, of ops gl f] obtain st' where s: "step ops gl f c st = Inr st'"
        by blast
      have "depth st \<le> depth_limit c - 2 \<and> in_stack st (depth st) \<and> 3 \<le> depth_limit c"
        if up: "depth st' = depth st + 1"
        using inv d s
      proof (cases rule: step_kinds)
        case budget
        then show ?thesis using up by simp
      next
        case accept
        then show ?thesis using up by simp
      next
        case (gl_ok feval t1 p1 t2)
        then show ?thesis using up by simp
      next
        case (depth_stop e1 p1)
        then show ?thesis using up by simp
      next
        case (bisect st1)
        have "depth st < depth_limit c - 1" using bisect(4) by simp
        from stack_inv_next[OF inv this] show ?thesis using bisect(4) d by simp
      qed
      then show ?thesis using s stack_inv_top[OF inv d] by blast
    qed
    from inv have "length (as st) = nat (depth_limit c) \<and> length (bs st) = nat (depth_limit c)
            \<and> length (vs st) = nat (depth_limit c)
            \<and> 0 \<le> depth st \<and> depth st \<le> max 1 (depth_limit c - 1)"
      unfolding stack_inv_def by blast
    with r top show ?thesis by blast
  qed
  have nf: "integrate_run ops gl f param0 a b goal0 tol deg_limit0 eval_limit0 depth_limit0
              flags0 prec0 \<noteq> Some (Inl e)" for e
    unfolding integrate_run_def Let_def c[symmetric] i0
    using main_loop_no_fault[OF inv0] by simp
  from dl i0 run nf show ?thesis by blast
qed

text \<open>
  The theorem at work: on \<open>[0, 1]\<close> with \<open>f(x) = x\<close>, tolerance \<open>1/2\<close> and default
  limits at precision 3, the first iteration bisects and writes index 1.
\<close>

theorem stack_accesses_in_bounds_witness:
  "\<exists>st0. integrate_init exact_ops f_ident () (pt 0) (pt 1) (1 / 2) (resolve_limits 4 0 0 0 0 3) = Inr st0
     \<and> depth st0 = 1 \<and> in_stack st0 0
     \<and> (\<exists>st'. step exact_ops gl_decline f_ident (resolve_limits 4 0 0 0 0 3) st0 = Inr st'
            \<and> depth st' = 2 \<and> in_stack st0 1)"
proof -
  let ?c = "resolve_limits 4 0 0 0 0 3"
  from stack_accesses_in_bounds[OF refl, of 4 0 0 0 0 3 exact_ops f_ident "()" "pt 0" "pt 1" "1 / 2" gl_decline]
  obtain st0 where i: "integrate_init exact_ops f_ident () (pt 0) (pt 1) (1 / 2) ?c = Inr st0"
    and all: "\<forall>n. \<exists>st. run_steps exact_ops gl_decline f_ident ?c n st0 = Inr st
            \<and> length (as st) = nat (depth_limit ?c) \<and> length (bs st) = nat (depth_limit ?c)
            \<and> length (vs st) = nat (depth_limit ?c)
            \<and> 0 \<le> depth st \<and> depth st \<le> max 1 (depth_limit ?c - 1)
            \<and> (1 \<le> depth st \<longrightarrow>
                  in_stack st (depth st - 1)
                  \<and> (\<exists>st'. step exact_ops gl_decline f_ident ?c st = Inr st'
                        \<and> (depth st' = depth st + 1 \<longrightarrow>
                              depth st \<le> depth_limit ?c - 2 \<and> in_stack st (depth st)
                              \<and> 3 \<le> depth_limit ?c)))" by blast
  have d0: "depth st0 = 1"
    using i by (auto simp add: integrate_init_def Let_def split: if_splits prod.splits)
  have ev: "(case integrate_init exact_ops f_ident () (pt 0) (pt 1) (1 / 2) (resolve_limits 4 0 0 0 0 3) of
               Inl e \<Rightarrow> Inl e
             | Inr st0 \<Rightarrow> map_sum id depth (step exact_ops gl_decline f_ident (resolve_limits 4 0 0 0 0 3) st0))
            = Inr 2"
    by code_simp
  from all[rule_format, of 0] d0 obtain st' where
    t: "in_stack st0 (depth st0 - 1)" "step exact_ops gl_decline f_ident ?c st0 = Inr st'"
       "depth st' = depth st0 + 1 \<longrightarrow> in_stack st0 (depth st0)"
    by auto
  have "depth st' = 2" using ev i t(2) by simp
  then show ?thesis using i d0 t by simp
qed


section \<open>The two budgets\<close>





section \<open>The loop ends\<close>

lemma gl_decline_nonneg: "gl_count_nonneg gl_decline"
  by (simp add: gl_count_nonneg_def gl_decline_def)

text \<open>
  Claim C2: when the Gauss-Legendre rule keeps its contract and never reports a negative
  count, the loop of \<^verbatim>\<open>acb_calc_integrate\<close> ends for every integrand, substrate and
  input, with \<open>depth = 0\<close>. Once \<open>stopping\<close> is set in a state of the run it
  stays set. In such a state with an interval left, the iteration accepts the top
  interval: it adds its value to \<open>s\<close>, lowers \<open>depth\<close> by 1 and changes nothing else.
  So from there \<open>k\<close> more iterations pop \<open>k\<close> intervals (or all that are left) from
  the top down and add their values to \<open>s\<close> in that order; they leave the stack
  arrays, \<open>new_tol\<close>, the counter \<open>eval\<close> and the memory behind \<^verbatim>\<open>param\<close> as they
  were, so the integrand is not called again; and they reach \<open>depth = 0\<close> after
  \<open>depth\<close> iterations.
\<close>

theorem main_loop_terminates:
  assumes g: "gl_count_nonneg gl"
    and c: "c = resolve_limits goal0 deg_limit0 eval_limit0 depth_limit0 flags0 prec0"
  shows "(\<exists>st. integrate_run ops gl f param0 a b goal0 tol deg_limit0 eval_limit0 depth_limit0
                 flags0 prec0 = Some (Inr st) \<and> depth st = 0)
     \<and> (\<exists>st0. integrate_init ops f param0 a b tol c = Inr st0
          \<and> (\<forall>n st. run_steps ops gl f c n st0 = Inr st \<and> stopping st \<longrightarrow>
                (1 \<le> depth st \<longrightarrow>
                   step ops gl f c st =
                     Inr (st\<lparr>s := acb_add ops (s st) (vs st ! nat (depth st - 1)) (prec c),
                              depth := depth st - 1\<rparr>))
              \<and> (\<forall>k. \<exists>st'. run_steps ops gl f c k st = Inr st'
                   \<and> run_steps ops gl f c (n + k) st0 = Inr st'
                   \<and> stopping st' \<and> param st' = param st \<and> eval st' = eval st
                   \<and> as st' = as st \<and> bs st' = bs st \<and> vs st' = vs st
                   \<and> new_tol st' = new_tol st
                   \<and> depth st' = max 0 (depth st - int k)
                   \<and> s st' = foldl (\<lambda>x i. acb_add ops x (vs st ! i) (prec c)) (s st)
                                (rev [nat (depth st - int k) ..< nat (depth st)]))))"
proof -
  have dl: "1 \<le> depth_limit c" unfolding c by (rule resolve_depth_limit_pos)
  from init_inv[OF dl, of ops f param0 a b tol] obtain st0 where
    i0: "integrate_init ops f param0 a b tol c = Inr st0" and inv0: "stack_inv c st0" by blast
  from run_steps_terminates[OF g inv0, of ops f] obtain n st where
    t: "run_steps ops gl f c n st0 = Inr st" "depth st = 0" by blast
  then have "main_loop ops gl f c st0 = Some (Inr st)" by (simp add: run_steps_main_loop)
  then have A: "integrate_run ops gl f param0 a b goal0 tol deg_limit0 eval_limit0 depth_limit0
                 flags0 prec0 = Some (Inr st) \<and> depth st = 0"
    unfolding integrate_run_def Let_def c[symmetric] i0 using t(2) by simp
  have B: "\<exists>st'. run_steps ops gl f c k st = Inr st'
                   \<and> run_steps ops gl f c (n + k) st0 = Inr st'
                   \<and> stopping st' \<and> param st' = param st \<and> eval st' = eval st
                   \<and> as st' = as st \<and> bs st' = bs st \<and> vs st' = vs st
                   \<and> new_tol st' = new_tol st
                   \<and> depth st' = max 0 (depth st - int k)
                   \<and> s st' = foldl (\<lambda>x i. acb_add ops x (vs st ! i) (prec c)) (s st)
                                (rev [nat (depth st - int k) ..< nat (depth st)])"
    if r: "run_steps ops gl f c n st0 = Inr st" and s: "stopping st" for n st k
  proof -
    from run_steps_inv[OF inv0, of ops gl f n] r have inv: "stack_inv c st" by auto
    from stopping_drains[OF inv s, of ops gl f k] obtain st' where
      d: "run_steps ops gl f c k st = Inr st'" "stopping st'" "param st' = param st"
       "eval st' = eval st" "as st' = as st" "bs st' = bs st" "vs st' = vs st"
       "new_tol st' = new_tol st"
       "depth st' = max 0 (depth st - int k)"
       "s st' = foldl (\<lambda>x i. acb_add ops x (vs st ! i) (prec c)) (s st)
                  (rev [nat (depth st - int k) ..< nat (depth st)])" by blast
    have "run_steps ops gl f c (n + k) st0 = Inr st'"
      using run_steps_add[of ops gl f c n k st0] r d(1) by simp
    with d show ?thesis by blast
  qed
  have C: "step ops gl f c st =
             Inr (st\<lparr>s := acb_add ops (s st) (vs st ! nat (depth st - 1)) (prec c),
                      depth := depth st - 1\<rparr>)"
    if r: "run_steps ops gl f c n st0 = Inr st" and s: "stopping st" and d: "1 \<le> depth st"
    for n st
  proof -
    from run_steps_inv[OF inv0, of ops gl f n] r have inv: "stack_inv c st" by auto
    have acc: "accept_test ops c st" using s by (simp add: accept_test_def Let_def)
    show ?thesis using step_accept[OF _ stack_inv_top[OF inv d] acc] s by simp
  qed
  from A i0 B C show ?thesis by blast
qed
text \<open>
  The theorem at work: with \<open>depth_limit = 2\<close> and tolerance 0 the run on
  \<open>[0, 1]\<close> cannot bisect. Its first iteration sets \<open>stopping\<close>; the next one
  accepts the one interval, whose value \<open>1/2 \<plusminus> 1/2\<close> becomes the sum, and the run
  ends.
\<close>

theorem main_loop_terminates_witness:
  "gl_count_nonneg (gl_decline :: (real, real, unit) gl_rule)
   \<and> (\<exists>st. integrate_run exact_ops gl_decline f_ident () (pt 0) (pt 1) 4 0 0 0 2 0 3 = Some (Inr st)
          \<and> depth st = 0 \<and> stopping st \<and> eval st = 1)
   \<and> (\<exists>st0 st st'.
          integrate_init exact_ops f_ident () (pt 0) (pt 1) 0 (resolve_limits 4 0 0 2 0 3) = Inr st0
        \<and> run_steps exact_ops gl_decline f_ident (resolve_limits 4 0 0 2 0 3) 1 st0 = Inr st
        \<and> stopping st \<and> depth st = 1
        \<and> run_steps exact_ops gl_decline f_ident (resolve_limits 4 0 0 2 0 3) 1 st = Inr st'
        \<and> stopping st' \<and> depth st' = 0 \<and> eval st' = eval st \<and> param st' = param st
        \<and> s st' = cb (rb (1 / 2) (1 / 2)) (rb 0 0))"
proof -
  let ?c = "resolve_limits 4 0 0 2 0 3"
  have g: "gl_count_nonneg (gl_decline :: (real, real, unit) gl_rule)"
    by (rule gl_decline_nonneg)
  note t = main_loop_terminates[OF g refl, of exact_ops f_ident "()" "pt 0" "pt 1" 4 0 0 0 2 0 3]
  from t obtain stf where
    r: "integrate_run exact_ops gl_decline f_ident () (pt 0) (pt 1) 4 0 0 0 2 0 3 = Some (Inr stf)"
       "depth stf = 0" by blast
  have ev: "map_option (map_sum id (\<lambda>st. (stopping st, eval st)))
              (integrate_run exact_ops gl_decline f_ident () (pt 0) (pt 1) 4 0 0 0 2 0 3)
            = Some (Inr (True, 1))"
    by code_simp
  have A: "stopping stf" "eval stf = 1" using ev r(1) by simp_all
  from t obtain st0 where
    i: "integrate_init exact_ops f_ident () (pt 0) (pt 1) 0 ?c = Inr st0"
    and dr: "\<And>n st k. run_steps exact_ops gl_decline f_ident ?c n st0 = Inr st \<Longrightarrow> stopping st \<Longrightarrow>
               \<exists>st'. run_steps exact_ops gl_decline f_ident ?c k st = Inr st'
                   \<and> stopping st' \<and> param st' = param st \<and> eval st' = eval st
                   \<and> depth st' = max 0 (depth st - int k)
                   \<and> s st' = foldl (\<lambda>x i. acb_add exact_ops x (vs st ! i) (prec ?c)) (s st)
                                (rev [nat (depth st - int k) ..< nat (depth st)])"
    by blast
  have "1 \<le> depth_limit ?c" by (rule resolve_depth_limit_pos)
  from init_inv[OF this, of exact_ops f_ident "()" "pt 0" "pt 1" 0] i
  have inv0: "stack_inv ?c st0" by simp
  from run_steps_inv[OF inv0, of exact_ops gl_decline f_ident 1] obtain st where
    r1: "run_steps exact_ops gl_decline f_ident ?c 1 st0 = Inr st" by blast
  have ev1: "(case integrate_init exact_ops f_ident () (pt 0) (pt 1) 0 (resolve_limits 4 0 0 2 0 3) of
               Inl e \<Rightarrow> Inl e
             | Inr st0 \<Rightarrow> map_sum id
                  (\<lambda>st. (stopping st, depth st,
                         foldl (\<lambda>x i. acb_add exact_ops x (vs st ! i) (prec (resolve_limits 4 0 0 2 0 3)))
                           (s st) (rev [nat (depth st - int 1) ..< nat (depth st)])))
                  (run_steps exact_ops gl_decline f_ident (resolve_limits 4 0 0 2 0 3) 1 st0))
            = Inr (True, 1, cb (rb (1 / 2) (1 / 2)) (rb 0 0))"
    by code_simp
  have "(stopping st, depth st,
          foldl (\<lambda>x i. acb_add exact_ops x (vs st ! i) (prec ?c)) (s st)
            (rev [nat (depth st - int 1) ..< nat (depth st)]))
        = (True, 1, cb (rb (1 / 2) (1 / 2)) (rb 0 0))"
    using ev1 by (simp only: i r1 sum.case map_sum.simps id_apply sum.inject)
  then have v: "stopping st" "depth st = 1"
    "foldl (\<lambda>x i. acb_add exact_ops x (vs st ! i) (prec ?c)) (s st)
        (rev [nat (depth st - int 1) ..< nat (depth st)]) = cb (rb (1 / 2) (1 / 2)) (rb 0 0)"
    by blast+
  from dr[OF r1 v(1), of 1] obtain st' where
    d: "run_steps exact_ops gl_decline f_ident ?c 1 st = Inr st'" "stopping st'"
       "param st' = param st" "eval st' = eval st" "depth st' = max 0 (depth st - int 1)"
       "s st' = foldl (\<lambda>x i. acb_add exact_ops x (vs st ! i) (prec ?c)) (s st)
                  (rev [nat (depth st - int 1) ..< nat (depth st)])" by blast
  have "depth st' = 0" using d(5) v(2) by simp
  moreover have "s st' = cb (rb (1 / 2) (1 / 2)) (rb 0 0)"
    unfolding d(6) by (rule v(3))
  ultimately have "depth st' = 0" "s st' = cb (rb (1 / 2) (1 / 2)) (rb 0 0)" by blast+
  with g r A i r1 v(1,2) d(1-4) show ?thesis by blast
qed

section \<open>When the top interval is accepted\<close>

text \<open>
  Claim C4: take an iteration that is not the budget check setting \<open>stopping\<close>, with
  the top interval \<open>(a, b, v)\<close> at index \<open>depth - 1\<close>. The iteration accepts the
  interval, which is to say that it ends in the state that differs only by \<open>v\<close> added
  to \<open>s\<close> and \<open>depth\<close> lowered by 1, exactly when the \<^verbatim>\<open>mag_hypot\<close> of the radii of
  the real and imaginary parts of \<open>v\<close> is strictly below \<open>new_tol\<close>, or the difference
  of the endpoints, computed as \<open>a - b\<close>, contains zero, or \<open>stopping\<close> is set.
\<close>

theorem accept_iff:
  assumes nb: "\<not> (\<not> stopping st \<and> eval_limit c - 1 \<le> eval st)"
    and top: "in_stack st (depth st - 1)"
  shows "step ops gl f c st =
           Inr (st\<lparr>s := acb_add ops (s st) (vs st ! nat (depth st - 1)) (prec c),
                    depth := depth st - 1\<rparr>)
     \<longleftrightarrow>
       mag_hypot ops (arb_radref (acb_realref (vs st ! nat (depth st - 1))))
                     (arb_radref (acb_imagref (vs st ! nat (depth st - 1)))) < new_tol st
       \<or> acb_contains_zero ops
            (acb_sub ops (as st ! nat (depth st - 1)) (bs st ! nat (depth st - 1)) (prec c))
       \<or> stopping st"
proof -
  have at: "accept_test ops c st \<longleftrightarrow>
       mag_hypot ops (arb_radref (acb_realref (vs st ! nat (depth st - 1))))
                     (arb_radref (acb_imagref (vs st ! nat (depth st - 1)))) < new_tol st
       \<or> acb_contains_zero ops
            (acb_sub ops (as st ! nat (depth st - 1)) (bs st ! nat (depth st - 1)) (prec c))
       \<or> stopping st"
    by (simp add: accept_test_def Let_def mag_cmp_def)
  let ?acc = "st\<lparr>s := acb_add ops (s st) (vs st ! nat (depth st - 1)) (prec c),
                    depth := depth st - 1\<rparr>"
  have d1: "1 \<le> depth st" using top by (simp add: in_stack_def in_vec_def)
  have i0: "in_stack st (depth st) \<Longrightarrow> in_stack st1 (depth st1)"
    if "as st1 = as st" "bs st1 = bs st" "vs st1 = vs st" "depth st1 = depth st" for st1 :: "('a, 'b, 'c) state"
    using that by (simp add: in_stack_def)
  have sob: "stop_or_bisect ops f c st1 \<noteq> Inr st2"
    if e: "depth st1 = depth st" "as st1 = as st" "bs st1 = bs st" "vs st1 = vs st"
      and d2: "depth st2 = depth st - 1" for st1 st2 :: "('a, 'b, 'c) state"
  proof (cases "depth_limit c - 1 \<le> depth st1")
    case True
    then show ?thesis using e d2 by (auto simp add: stop_or_bisect_def)
  next
    case False
    show ?thesis
    proof (cases "in_stack st1 (depth st1 - 1) \<and> in_stack st1 (depth st1)")
      case True
      from bisect_fields[of st1 ops f c] True obtain st' where
        "bisect ops f c st1 = Inr st'" "depth st' = depth st1 + 1" by blast
      then show ?thesis using False e d2 by (auto simp add: stop_or_bisect_def)
    next
      case False2: False
      then have "bisect ops f c st1 = Inl OutOfBounds" by (simp add: bisect_def)
      then show ?thesis using False by (simp add: stop_or_bisect_def)
    qed
  qed
  show ?thesis
  proof (cases "accept_test ops c st")
    case True
    then show ?thesis using step_accept[OF _ top True, where gl=gl and f=f] nb at by auto
  next
    case False
    obtain r where r: "step ops gl f c st = r" by simp
    have "r \<noteq> Inr ?acc"
      using r
    proof (cases rule: step_cases)
      case budget
      then show ?thesis using nb by simp
    next
      case fault
      then show ?thesis by simp
    next
      case accept
      then show ?thesis using False by simp
    next
      case (gl_ok feval t1 p1 t2)
      have "eval (st\<lparr>eval := eval st + feval, param := p1,
                   s := acb_add ops (s st) t2 (prec c),
                   new_tol := mag_max (new_tol st)
                      (mag_mul_2exp_si ops (acb_get_mag_lower ops t2) (- goal c)),
                   depth := depth st - 1\<rparr>) \<noteq> eval ?acc" using gl_ok(7) by simp
      then have "st\<lparr>eval := eval st + feval, param := p1,
                   s := acb_add ops (s st) t2 (prec c),
                   new_tol := mag_max (new_tol st)
                      (mag_mul_2exp_si ops (acb_get_mag_lower ops t2) (- goal c)),
                   depth := depth st - 1\<rparr> \<noteq> ?acc" by metis
      then show ?thesis unfolding gl_ok(9) by blast
    next
      case (gl_declined feval t1 p1)
      show ?thesis unfolding gl_declined(8)
        by (rule sob) simp_all
    next
      case not_finite
      show ?thesis unfolding not_finite(6)
        by (rule sob) simp_all
    qed
    then show ?thesis using r False at by simp
  qed
qed

text \<open>
  The theorem at work: with tolerance 1 the first interval of the run on \<open>[0, 1]\<close>
  has a radius below \<open>new_tol\<close> and is accepted.
\<close>

theorem accept_iff_witness:
  "\<exists>st0. integrate_init exact_ops f_ident () (pt 0) (pt 1) 1 (resolve_limits 4 0 0 0 0 3) = Inr st0
     \<and> \<not> (\<not> stopping st0 \<and> eval_limit (resolve_limits 4 0 0 0 0 3) - 1 \<le> eval st0)
     \<and> in_stack st0 (depth st0 - 1)
     \<and> mag_hypot exact_ops (arb_radref (acb_realref (vs st0 ! nat (depth st0 - 1))))
                     (arb_radref (acb_imagref (vs st0 ! nat (depth st0 - 1)))) < new_tol st0
     \<and> step exact_ops gl_decline f_ident (resolve_limits 4 0 0 0 0 3) st0 =
           Inr (st0\<lparr>s := acb_add exact_ops (s st0) (vs st0 ! nat (depth st0 - 1))
                           (prec (resolve_limits 4 0 0 0 0 3)),
                    depth := depth st0 - 1\<rparr>)"
proof -
  let ?c = "resolve_limits 4 0 0 0 0 3"
  have "1 \<le> depth_limit ?c" by (rule resolve_depth_limit_pos)
  from init_inv[OF this, of exact_ops f_ident "()" "pt 0" "pt 1" 1] obtain st0 where
    i: "integrate_init exact_ops f_ident () (pt 0) (pt 1) 1 ?c = Inr st0"
    and inv0: "stack_inv ?c st0" and d: "depth st0 = 1" and e: "eval st0 = 1" by blast
  have nb: "\<not> (\<not> stopping st0 \<and> eval_limit ?c - 1 \<le> eval st0)"
    using e by (simp add: resolve_limits_def)
  have top: "in_stack st0 (depth st0 - 1)" using stack_inv_top[OF inv0] d by simp
  have ev: "(case integrate_init exact_ops f_ident () (pt 0) (pt 1) 1 (resolve_limits 4 0 0 0 0 3) of
               Inl e \<Rightarrow> False
             | Inr st0 \<Rightarrow>
                 mag_hypot exact_ops (arb_radref (acb_realref (vs st0 ! nat (depth st0 - 1))))
                     (arb_radref (acb_imagref (vs st0 ! nat (depth st0 - 1)))) < new_tol st0)"
    by code_simp
  have small: "mag_hypot exact_ops (arb_radref (acb_realref (vs st0 ! nat (depth st0 - 1))))
                     (arb_radref (acb_imagref (vs st0 ! nat (depth st0 - 1)))) < new_tol st0"
    using ev i by simp
  from accept_iff[OF nb top, of exact_ops gl_decline f_ident] small
  have "step exact_ops gl_decline f_ident ?c st0 =
           Inr (st0\<lparr>s := acb_add exact_ops (s st0) (vs st0 ! nat (depth st0 - 1)) (prec ?c),
                    depth := depth st0 - 1\<rparr>)" by blast
  with i nb top small show ?thesis by blast
qed


section \<open>The adaptive tolerance\<close>

lemma stop_or_bisect_new_tol:
  assumes "stop_or_bisect ops f c st = Inr st'"
  shows "new_tol st' = new_tol st
     \<or> (\<exists>t. new_tol st' = max (new_tol st) (mag_mul_2exp_si ops (acb_get_mag_lower ops t) (- goal c)))"
proof (cases "depth_limit c - 1 \<le> depth st")
  case True
  then show ?thesis using assms by (auto simp add: stop_or_bisect_def)
next
  case False
  then have b: "bisect ops f c st = Inr st'" using assms by (simp add: stop_or_bisect_def)
  then have ins: "in_stack st (depth st - 1)" "in_stack st (depth st)"
    by (auto simp add: bisect_def split: if_splits)
  define i where "i = nat (depth st - 1)"
  define j where "j = nat (depth st)"
  define mid where "mid = acb_mul_2exp_si ops (acb_add ops (as st ! i) (bs st ! i) (prec c)) (- 1)"
  obtain vl p1 where ql: "quad_simple ops f (param st) (as st ! i) mid (prec c) = (vl, p1)"
    by (cases "quad_simple ops f (param st) (as st ! i) mid (prec c)")
  obtain vr p2 where qr: "quad_simple ops f p1 mid (bs st ! i) (prec c) = (vr, p2)"
    by (cases "quad_simple ops f p1 mid (bs st ! i) (prec c)")
  from b have "\<exists>t. new_tol st' = max (new_tol st) (mag_mul_2exp_si ops (acb_get_mag_lower ops t) (- goal c))"
    unfolding bisect_eq[OF ins i_def j_def mid_def ql qr refl]
    by (auto simp add: mag_max_def)
  then show ?thesis by blast
qed

lemma step_new_tol:
  assumes "step ops gl f c st = Inr st'"
  shows "new_tol st' = new_tol st
     \<or> (\<exists>t. new_tol st' = max (new_tol st) (mag_mul_2exp_si ops (acb_get_mag_lower ops t) (- goal c)))"
  using assms
proof (cases rule: step_cases)
  case budget
  then show ?thesis by simp
next
  case fault
  then show ?thesis by simp
next
  case accept
  then show ?thesis by simp
next
  case (gl_ok feval t1 p1 t2)
  then have "new_tol st' = max (new_tol st) (mag_mul_2exp_si ops (acb_get_mag_lower ops t2) (- goal c))"
    by (simp add: mag_max_def)
  then show ?thesis by blast
next
  case (gl_declined feval t1 p1)
  from stop_or_bisect_new_tol[OF gl_declined(8)[symmetric]] show ?thesis by simp
next
  case not_finite
  from stop_or_bisect_new_tol[OF not_finite(6)[symmetric]] show ?thesis by simp
qed

lemma step_new_tol_le:
  assumes "step ops gl f c st = Inr st'"
  shows "new_tol st \<le> new_tol st'"
  using step_new_tol[OF assms] by auto

lemma run_steps_new_tol_le:
  "run_steps ops gl f c k st = Inr st' \<Longrightarrow> new_tol st \<le> new_tol st'"
proof (induction k arbitrary: st)
  case 0
  then show ?case by simp
next
  case (Suc k)
  show ?case
  proof (cases "1 \<le> depth st")
    case False
    then show ?thesis using Suc.prems by simp
  next
    case True
    then obtain st1 where s1: "step ops gl f c st = Inr st1" "run_steps ops gl f c k st1 = Inr st'"
      using Suc.prems by (auto split: sum.splits)
    from step_new_tol_le[OF s1(1)] Suc.IH[OF s1(2)] show ?thesis by simp
  qed
qed

text \<open>
  Claim C5: within one call \<open>new_tol\<close> never decreases. It starts as the maximum of
  \<open>tol\<close> and the lower bound of the first value scaled by \<open>2^-goal\<close>; between any
  two states of the run, the later one has the larger or equal \<open>new_tol\<close>; and one
  iteration either leaves \<open>new_tol\<close> as it is or replaces it by the maximum of itself
  and the scaled lower bound of some ball.
\<close>

theorem new_tol_monotone:
  assumes i: "integrate_init ops f param0 a b tol c = Inr st0"
    and r1: "run_steps ops gl f c m st0 = Inr st1"
    and r2: "run_steps ops gl f c (m + k) st0 = Inr st2"
  shows "new_tol st0 = max tol (mag_mul_2exp_si ops
            (acb_get_mag_lower ops (fst (quad_simple ops f param0 a b (prec c)))) (- goal c))
     \<and> new_tol st1 \<le> new_tol st2
     \<and> (\<forall>st'. step ops gl f c st1 = Inr st' \<longrightarrow>
           new_tol st' = new_tol st1
           \<or> (\<exists>t. new_tol st' = max (new_tol st1)
                      (mag_mul_2exp_si ops (acb_get_mag_lower ops t) (- goal c))))"
proof -
  have A: "new_tol st0 = max tol (mag_mul_2exp_si ops
            (acb_get_mag_lower ops (fst (quad_simple ops f param0 a b (prec c)))) (- goal c))"
  proof -
    obtain v p1 where q: "quad_simple ops f param0 a b (prec c) = (v, p1)"
      by (cases "quad_simple ops f param0 a b (prec c)")
    from i show ?thesis
      unfolding integrate_init_eq[OF integrate_init_Inr[OF i] q] using q by auto
  qed
  have "run_steps ops gl f c k st1 = Inr st2"
    using r2 unfolding run_steps_add[of ops gl f c m k st0] r1 by simp
  then have B: "new_tol st1 \<le> new_tol st2" by (rule run_steps_new_tol_le)
  from A B step_new_tol show ?thesis by blast
qed

text \<open>
  The theorem at work: with tolerance 0 the run on \<open>[0, 1]\<close> starts with
  \<open>new_tol = 0\<close>, and the first bisection raises it to \<open>1/64\<close>.
\<close>

theorem new_tol_monotone_witness:
  "\<exists>st0 st2. integrate_init exact_ops f_ident () (pt 0) (pt 1) 0 (resolve_limits 4 0 0 0 0 3) = Inr st0
     \<and> run_steps exact_ops gl_decline f_ident (resolve_limits 4 0 0 0 0 3) 0 st0 = Inr st0
     \<and> run_steps exact_ops gl_decline f_ident (resolve_limits 4 0 0 0 0 3) (0 + 1) st0 = Inr st2
     \<and> new_tol st0 = 0 \<and> new_tol st2 = 1 / 64 \<and> new_tol st0 \<le> new_tol st2"
proof -
  let ?c = "resolve_limits 4 0 0 0 0 3"
  have "1 \<le> depth_limit ?c" by (rule resolve_depth_limit_pos)
  from init_inv[OF this, of exact_ops f_ident "()" "pt 0" "pt 1" 0] obtain st0 where
    i: "integrate_init exact_ops f_ident () (pt 0) (pt 1) 0 ?c = Inr st0"
    and inv0: "stack_inv ?c st0" by blast
  have r1: "run_steps exact_ops gl_decline f_ident ?c 0 st0 = Inr st0" by simp
  from run_steps_inv[OF inv0, of exact_ops gl_decline f_ident "0 + 1"] obtain st2 where
    r2: "run_steps exact_ops gl_decline f_ident ?c (0 + 1) st0 = Inr st2" by blast
  have ev: "(case integrate_init exact_ops f_ident () (pt 0) (pt 1) 0 (resolve_limits 4 0 0 0 0 3) of
               Inl e \<Rightarrow> Inl e
             | Inr st0 \<Rightarrow> map_sum id (\<lambda>st. (new_tol st0, new_tol st))
                  (run_steps exact_ops gl_decline f_ident (resolve_limits 4 0 0 0 0 3) (0 + 1) st0))
            = Inr (0, 1 / 64)"
    by code_simp
  have v: "new_tol st0 = 0" "new_tol st2 = 1 / 64" using ev i r2 by simp_all
  from new_tol_monotone[OF i r1 r2] have "new_tol st0 \<le> new_tol st2" by blast
  with i r1 r2 v show ?thesis by blast
qed


section \<open>The direct rule calls the integrand once\<close>

text \<open>
  Claim C6: for all endpoints \<open>a\<close>, \<open>b\<close> and every integrand, \<^verbatim>\<open>quad_simple\<close>
  computes \<open>delta = (b - a) / 2\<close> and \<open>mid = (a + b) / 2\<close>, builds \<open>wide\<close> from
  \<open>mid\<close> with the radii of its real and imaginary part enlarged by the magnitudes of
  the real and imaginary part of \<open>delta\<close>, and returns the value of the integrand at
  \<open>wide\<close> multiplied by \<open>delta\<close> and doubled. With the calls logged, the log grows
  by exactly one entry: \<open>wide\<close>, derivative order 0, the working precision. The
  function is total: it has no result other than this ball. And the result stands for
  the integrand's value times \<open>b - a\<close>: over a sound substrate it contains
  \<open>y * (x2 - x1)\<close> for every \<open>y\<close> in the value at \<open>wide\<close>, \<open>x1\<close> in \<open>a\<close> and
  \<open>x2\<close> in \<open>b\<close>.
\<close>

theorem quad_simple_one_call:
  "(let delta = acb_mul_2exp_si ops (acb_sub ops b a pr) (- 1);
        mid = acb_mul_2exp_si ops (acb_add ops a b pr) (- 1);
        wide = \<lparr>acb_realref =
                  arb_add_error_mag ops (acb_realref mid) (arb_get_mag ops (acb_realref delta)),
                acb_imagref =
                  arb_add_error_mag ops (acb_imagref mid) (arb_get_mag ops (acb_imagref delta))\<rparr>
    in quad_simple ops (logged f) (p, calls) a b pr =
         (acb_mul_2exp_si ops (acb_mul ops (fst (f wide p 0 pr)) delta pr) 1,
          (snd (f wide p 0 pr), calls @ [(wide, 0, pr)]))
       \<and> (sound_substrate rmem ops \<longrightarrow>
            (\<forall>y x1 x2. acb_contains rmem (fst (f wide p 0 pr)) y
                 \<and> acb_contains rmem a x1 \<and> acb_contains rmem b x2
               \<longrightarrow> acb_contains rmem (fst (quad_simple ops (logged f) (p, calls) a b pr))
                     (y * (x2 - x1)))))"
proof -
  define delta where "delta = acb_mul_2exp_si ops (acb_sub ops b a pr) (- 1)"
  define mid where "mid = acb_mul_2exp_si ops (acb_add ops a b pr) (- 1)"
  define wide where "wide = \<lparr>acb_realref =
                    arb_add_error_mag ops (acb_realref mid) (arb_get_mag ops (acb_realref delta)),
                  acb_imagref =
                    arb_add_error_mag ops (acb_imagref mid) (arb_get_mag ops (acb_imagref delta))\<rparr>"
  have q: "quad_simple ops (logged f) (p, calls) a b pr =
         (acb_mul_2exp_si ops (acb_mul ops (fst (f wide p 0 pr)) delta pr) 1,
          (snd (f wide p 0 pr), calls @ [(wide, 0, pr)]))"
    unfolding quad_simple_def logged_def Let_def wide_def mid_def delta_def
    by (simp split: prod.splits)
  have e: "acb_contains rmem (fst (quad_simple ops (logged f) (p, calls) a b pr)) (y * (x2 - x1))"
    if ss: "sound_substrate rmem ops" and y: "acb_contains rmem (fst (f wide p 0 pr)) y"
      and x1: "acb_contains rmem a x1" and x2: "acb_contains rmem b x2" for y x1 x2
  proof -
    have d: "acb_contains rmem delta ((x2 - x1) / 2)"
      unfolding delta_def by (rule sound_halfD[OF ss sound_subD[OF ss x2 x1]])
    have "acb_contains rmem (acb_mul_2exp_si ops (acb_mul ops (fst (f wide p 0 pr)) delta pr) 1)
            (2 * (y * ((x2 - x1) / 2)))"
      by (rule sound_doubleD[OF ss sound_mulD[OF ss y d]])
    moreover have "2 * (y * ((x2 - x1) / 2)) = y * (x2 - x1)" by simp
    ultimately show ?thesis unfolding q by simp
  qed
  show ?thesis
    unfolding Let_def delta_def[symmetric] mid_def[symmetric] wide_def[symmetric]
    using q e by blast
qed

text \<open>
  The theorem at work: on \<open>[0, 1]\<close> with \<open>f(x) = x\<close> the ball \<open>wide\<close> is
  \<open>1/2 \<plusminus> 1/2\<close>, the one call is made there, and the result contains
  \<open>1/2 * (1 - 0)\<close>.
\<close>

theorem quad_simple_one_call_witness:
  "sound_substrate rb_mem exact_ops
   \<and> quad_simple exact_ops (logged f_ident) ((), []) (pt 0) (pt 1) 3 =
       (cb (rb (1 / 2) (1 / 2)) (rb 0 0), ((), [(cb (rb (1 / 2) (1 / 2)) (rb 0 0), 0, 3)]))
   \<and> acb_contains rb_mem (fst (f_ident (cb (rb (1 / 2) (1 / 2)) (rb 0 0)) () 0 3))
        (complex_of_real (1 / 2))
   \<and> acb_contains rb_mem (pt 0) (complex_of_real 0)
   \<and> acb_contains rb_mem (pt 1) (complex_of_real 1)
   \<and> acb_contains rb_mem (fst (quad_simple exact_ops (logged f_ident) ((), []) (pt 0) (pt 1) 3))
        (complex_of_real (1 / 2) * (complex_of_real 1 - complex_of_real 0))"
proof -
  have w: "\<lparr>acb_realref =
              arb_add_error_mag exact_ops
                (acb_realref (acb_mul_2exp_si exact_ops (acb_add exact_ops (pt 0) (pt 1) 3) (- 1)))
                (arb_get_mag exact_ops
                  (acb_realref (acb_mul_2exp_si exact_ops (acb_sub exact_ops (pt 1) (pt 0) 3) (- 1)))),
            acb_imagref =
              arb_add_error_mag exact_ops
                (acb_imagref (acb_mul_2exp_si exact_ops (acb_add exact_ops (pt 0) (pt 1) 3) (- 1)))
                (arb_get_mag exact_ops
                  (acb_imagref (acb_mul_2exp_si exact_ops (acb_sub exact_ops (pt 1) (pt 0) 3) (- 1))))\<rparr>
           = cb (rb (1 / 2) (1 / 2)) (rb 0 0)"
    by (simp add: exact_ops_def pt_def cb_def rb_def rb_add_def rb_sub_def rb_scale_def two_exp_def)
  have q: "quad_simple exact_ops (logged f_ident) ((), []) (pt 0) (pt 1) 3 =
       (cb (rb (1 / 2) (1 / 2)) (rb 0 0), ((), [(cb (rb (1 / 2) (1 / 2)) (rb 0 0), 0, 3)]))"
    by code_simp
  have y: "acb_contains rb_mem (fst (f_ident (cb (rb (1 / 2) (1 / 2)) (rb 0 0)) () 0 3))
        (complex_of_real (1 / 2))"
    by (simp add: f_ident_def acb_contains_def cb_def rb_def rb_mem_def)
  note t = quad_simple_one_call[of exact_ops "pt 1" "pt 0" 3 f_ident "()" "[]" rb_mem,
      unfolded Let_def w]
  from t exact_ops_sound y pt_mem[of 0] pt_mem[of 1]
  have "acb_contains rb_mem (fst (quad_simple exact_ops (logged f_ident) ((), []) (pt 0) (pt 1) 3))
        (complex_of_real (1 / 2) * (complex_of_real 1 - complex_of_real 0))"
    by blast
  with exact_ops_sound q y pt_mem[of 0] pt_mem[of 1] show ?thesis by blast
qed


section \<open>The larger error goes on top\<close>

text \<open>
  Claim C7: an iteration that bisects (it raises \<open>depth\<close>) takes the top interval
  \<open>[a, b]\<close>, computes \<open>mid\<close>, gives the left child \<open>[a, mid]\<close> and then the right
  child \<open>[mid, b]\<close> their direct enclosures \<open>vl\<close> and \<open>vr\<close>, and leaves the two
  records at the indices \<open>depth - 1\<close> and \<open>depth\<close>. If the \<^verbatim>\<open>mag_hypot\<close> of the
  radii of \<open>vl\<close> is strictly larger than that of \<open>vr\<close>, the left child is the one at
  index \<open>depth\<close>, the new top; otherwise the right child is. So the radius of the new
  top is at least the radius of the record below it, the new top is the interval the
  next iteration reads, and the records further down are untouched.
\<close>

theorem bisection_order:
  assumes inv: "stack_inv c st" and d: "1 \<le> depth st"
    and s: "step ops gl f c st = Inr st'"
    and up: "depth st' = depth st + 1"
  shows "\<exists>p mid vl p1 vr p2.
       (p = param st \<or> p = snd (snd (gl_attempt gl f c st)))
     \<and> mid = acb_mul_2exp_si ops
               (acb_add ops (as st ! nat (depth st - 1)) (bs st ! nat (depth st - 1)) (prec c)) (- 1)
     \<and> quad_simple ops f p (as st ! nat (depth st - 1)) mid (prec c) = (vl, p1)
     \<and> quad_simple ops f p1 mid (bs st ! nat (depth st - 1)) (prec c) = (vr, p2)
     \<and> param st' = p2
     \<and> nat (depth st' - 1) = nat (depth st)
     \<and> (as st' ! nat (depth st), bs st' ! nat (depth st), vs st' ! nat (depth st)) =
         (if mag_hypot ops (arb_radref (acb_realref vr)) (arb_radref (acb_imagref vr))
             < mag_hypot ops (arb_radref (acb_realref vl)) (arb_radref (acb_imagref vl))
          then (as st ! nat (depth st - 1), mid, vl) else (mid, bs st ! nat (depth st - 1), vr))
     \<and> (as st' ! nat (depth st - 1), bs st' ! nat (depth st - 1), vs st' ! nat (depth st - 1)) =
         (if mag_hypot ops (arb_radref (acb_realref vr)) (arb_radref (acb_imagref vr))
             < mag_hypot ops (arb_radref (acb_realref vl)) (arb_radref (acb_imagref vl))
          then (mid, bs st ! nat (depth st - 1), vr) else (as st ! nat (depth st - 1), mid, vl))
     \<and> mag_hypot ops (arb_radref (acb_realref (vs st' ! nat (depth st - 1))))
                     (arb_radref (acb_imagref (vs st' ! nat (depth st - 1))))
         \<le> mag_hypot ops (arb_radref (acb_realref (vs st' ! nat (depth st))))
                         (arb_radref (acb_imagref (vs st' ! nat (depth st))))
     \<and> (\<forall>k < nat (depth st - 1).
           as st' ! k = as st ! k \<and> bs st' ! k = bs st ! k \<and> vs st' ! k = vs st ! k)"
  using inv d s
proof (cases rule: step_kinds)
  case budget
  then show ?thesis using up by simp
next
  case accept
  then show ?thesis using up by simp
next
  case (gl_ok feval t1 p1 t2)
  then show ?thesis using up by simp
next
  case (depth_stop e1 p1)
  then show ?thesis using up by simp
next
  case (bisect st1)
  define i where "i = nat (depth st - 1)"
  define j where "j = nat (depth st)"
  have same: "as st1 = as st" "bs st1 = bs st" "vs st1 = vs st" "depth st1 = depth st"
    using bisect(5) by auto
  have pp: "param st1 = param st \<or> param st1 = snd (snd (gl_attempt gl f c st))"
    using bisect(5) by auto
  define mid where "mid = acb_mul_2exp_si ops (acb_add ops (as st ! i) (bs st ! i) (prec c)) (- 1)"
  obtain vl p1 where ql: "quad_simple ops f (param st1) (as st ! i) mid (prec c) = (vl, p1)"
    by (cases "quad_simple ops f (param st1) (as st ! i) mid (prec c)")
  obtain vr p2 where qr: "quad_simple ops f p1 mid (bs st ! i) (prec c) = (vr, p2)"
    by (cases "quad_simple ops f p1 mid (bs st ! i) (prec c)")
  define sw where "sw = (mag_hypot ops (arb_radref (acb_realref vl)) (arb_radref (acb_imagref vl))
                  > mag_hypot ops (arb_radref (acb_realref vr)) (arb_radref (acb_imagref vr)))"
  have ij: "i \<noteq> j" "j \<noteq> i" using i_def j_def d by auto
  have li: "i < length (as st)" "i < length (bs st)" "i < length (vs st)"
    using bisect(6) same i_def by (auto simp add: in_stack_def in_vec_def)
  have lj: "j < length (as st)" "j < length (bs st)" "j < length (vs st)"
    using bisect(7) same j_def by (auto simp add: in_stack_def in_vec_def)
  have st': "st' = st1\<lparr>as := (if sw then (as st)[j := as st ! i, i := mid] else (as st)[j := mid]),
              bs := (if sw then (bs st)[j := mid, i := bs st ! i] else (bs st)[j := bs st ! i, i := mid]),
              vs := (if sw then (vs st)[j := vl, i := vr] else (vs st)[i := vl, j := vr]),
              new_tol := mag_max (new_tol st1)
                 (mag_mul_2exp_si ops (acb_get_mag_lower ops (if sw then vl else vr)) (- goal c)),
              depth := depth st + 1,
              depth_max := max (depth st + 1) (depth_max st1),
              eval := eval st1 + 2,
              param := p2\<rparr>"
    using bisect(8) bisect_eq[OF bisect(6,7), of i j mid ops c f vl p1 vr p2 sw]
    unfolding same i_def[symmetric] j_def[symmetric] using i_def j_def mid_def ql qr sw_def same
    by simp
  have A: "as st' ! j = (if sw then as st ! i else mid)" "as st' ! i = (if sw then mid else as st ! i)"
    unfolding st' using ij li lj by simp_all
  have B: "bs st' ! j = (if sw then mid else bs st ! i)" "bs st' ! i = (if sw then bs st ! i else mid)"
    unfolding st' using ij li lj by simp_all
  have V: "vs st' ! j = (if sw then vl else vr)" "vs st' ! i = (if sw then vr else vl)"
    unfolding st' using ij li lj by simp_all
  have low: "as st' ! k = as st ! k \<and> bs st' ! k = bs st ! k \<and> vs st' ! k = vs st ! k"
    if "k < i" for k
  proof -
    have "k \<noteq> i" "k \<noteq> j" using that i_def j_def by auto
    then show ?thesis unfolding st' by simp
  qed
  have ord: "mag_hypot ops (arb_radref (acb_realref (vs st' ! i))) (arb_radref (acb_imagref (vs st' ! i)))
         \<le> mag_hypot ops (arb_radref (acb_realref (vs st' ! j))) (arb_radref (acb_imagref (vs st' ! j)))"
    unfolding V sw_def by auto
  have top: "nat (depth st' - 1) = j" using up j_def by simp
  have P: "param st' = p2" unfolding st' by simp
  show ?thesis
    apply (rule exI[of _ "param st1"], rule exI[of _ mid], rule exI[of _ vl], rule exI[of _ p1],
           rule exI[of _ vr], rule exI[of _ p2])
    unfolding i_def[symmetric] j_def[symmetric]
    using pp mid_def ql qr P top A B V ord low sw_def
    by (simp add: i_def[symmetric] j_def[symmetric])
qed

text \<open>
  The theorem at work: for \<open>f(x) = x\<^sup>2\<close> on \<open>[-1, 0]\<close> the left child
  \<open>[-1, -1/2]\<close> has the larger radius and ends on top.
\<close>

theorem bisection_order_witness:
  "\<exists>st0 st'. integrate_init exact_ops f_square () (pt (- 1)) (pt 0) 0 (resolve_limits 4 0 0 0 0 3) = Inr st0
     \<and> stack_inv (resolve_limits 4 0 0 0 0 3) st0 \<and> 1 \<le> depth st0
     \<and> step exact_ops gl_decline f_square (resolve_limits 4 0 0 0 0 3) st0 = Inr st'
     \<and> depth st' = depth st0 + 1
     \<and> as st' ! 1 = pt (- 1) \<and> bs st' ! 1 = pt (- 1 / 2)
     \<and> as st' ! 0 = pt (- 1 / 2) \<and> bs st' ! 0 = pt 0
     \<and> mag_hypot exact_ops (arb_radref (acb_realref (vs st' ! nat (depth st0 - 1))))
                     (arb_radref (acb_imagref (vs st' ! nat (depth st0 - 1))))
         \<le> mag_hypot exact_ops (arb_radref (acb_realref (vs st' ! nat (depth st0))))
                         (arb_radref (acb_imagref (vs st' ! nat (depth st0))))"
proof -
  let ?c = "resolve_limits 4 0 0 0 0 3"
  have "1 \<le> depth_limit ?c" by (rule resolve_depth_limit_pos)
  from init_inv[OF this, of exact_ops f_square "()" "pt (- 1)" "pt 0" 0] obtain st0 where
    i: "integrate_init exact_ops f_square () (pt (- 1)) (pt 0) 0 ?c = Inr st0"
    and inv0: "stack_inv ?c st0" and d: "depth st0 = 1" by blast
  have d1: "1 \<le> depth st0" using d by simp
  from step_inv[OF inv0 d1, of exact_ops gl_decline f_square] obtain st' where
    s: "step exact_ops gl_decline f_square ?c st0 = Inr st'" by blast
  have ev: "(case integrate_init exact_ops f_square () (pt (- 1)) (pt 0) 0 (resolve_limits 4 0 0 0 0 3) of
               Inl e \<Rightarrow> Inl e
             | Inr st0 \<Rightarrow> map_sum id (\<lambda>st. (depth st, as st ! 1, bs st ! 1, as st ! 0, bs st ! 0))
                  (step exact_ops gl_decline f_square (resolve_limits 4 0 0 0 0 3) st0))
            = Inr (2, pt (- 1), pt (- 1 / 2), pt (- 1 / 2), pt 0)"
    by code_simp
  have v: "depth st' = 2" "as st' ! 1 = pt (- 1)" "bs st' ! 1 = pt (- 1 / 2)"
    "as st' ! 0 = pt (- 1 / 2)" "bs st' ! 0 = pt 0"
    using ev i s by simp_all
  have up: "depth st' = depth st0 + 1" using v d by simp
  from bisection_order[OF inv0 d1 s up]
  have "mag_hypot exact_ops (arb_radref (acb_realref (vs st' ! nat (depth st0 - 1))))
                     (arb_radref (acb_imagref (vs st' ! nat (depth st0 - 1))))
         \<le> mag_hypot exact_ops (arb_radref (acb_realref (vs st' ! nat (depth st0))))
                         (arb_radref (acb_imagref (vs st' ! nat (depth st0))))" by blast
  with i inv0 d1 s up v show ?thesis by blast
qed


section \<open>The result encloses the integral\<close>

text \<open>
  Claim C1: let the substrate be sound, let the integrand return, for every input ball,
  a ball that contains the values of \<open>F\<close> on it, let \<open>I p q\<close> be the integral of
  \<open>F\<close> along the segment from \<open>p\<close> to \<open>q\<close>, and let the Gauss-Legendre rule keep
  its contract. Then \<^verbatim>\<open>acb_calc_integrate\<close> returns, it returns a ball and no error,
  and the ball contains \<open>I x y\<close> for every point \<open>x\<close> of \<open>a\<close> and \<open>y\<close> of \<open>b\<close>.
  The run may have ended by either budget: nothing is assumed about the limits.
\<close>

theorem integrate_sound:
  assumes ss: "sound_substrate rmem ops" and sf: "sound_integrand rmem f F"
    and si: "segment_integral rmem F I" and sg: "sound_gl rmem gl f I"
    and g: "gl_count_nonneg gl"
    and x: "acb_contains rmem a x" and y: "acb_contains rmem b y"
  shows "\<exists>res p'. acb_calc_integrate ops gl f param0 a b goal0 tol deg_limit0 eval_limit0
                     depth_limit0 flags0 prec0 = Some (Inr (res, p'))
            \<and> acb_contains rmem res (I x y)"
proof -
  define c where "c = resolve_limits goal0 deg_limit0 eval_limit0 depth_limit0 flags0 prec0"
  have dl: "1 \<le> depth_limit c" unfolding c_def by (rule resolve_depth_limit_pos)
  from init_inv[OF dl, of ops f param0 a b tol] obtain st0 where
    i0: "integrate_init ops f param0 a b tol c = Inr st0" and inv0: "stack_inv c st0" by blast
  have s0: "sound_state rmem I (I x y) st0" by (rule init_sound[OF ss sf si x y i0])
  from run_steps_terminates[OF g inv0, of ops f] obtain n st where
    t: "run_steps ops gl f c n st0 = Inr st" "depth st = 0" by blast
  have "sound_state rmem I (I x y) st" by (rule run_steps_sound[OF ss sf si sg inv0 s0 t(1)])
  then have res: "acb_contains rmem (s st) (I x y)" using t(2) by (rule sound_state_final)
  have "main_loop ops gl f c st0 = Some (Inr st)" using t by (simp add: run_steps_main_loop)
  then have "integrate_run ops gl f param0 a b goal0 tol deg_limit0 eval_limit0 depth_limit0
                 flags0 prec0 = Some (Inr st)"
    unfolding integrate_run_def Let_def c_def[symmetric] i0 by simp
  then have "acb_calc_integrate ops gl f param0 a b goal0 tol deg_limit0 eval_limit0
                     depth_limit0 flags0 prec0 = Some (Inr (s st, param st))"
    unfolding acb_calc_integrate_def by simp
  with res show ?thesis by blast
qed

text \<open>
  The theorem at work: on \<open>[0, 1]\<close> with \<open>f(x) = x\<close>, the substrate without
  rounding and the midpoint rule, every hypothesis holds and the call returns the ball
  of radius 0 around \<open>1/2\<close>.
\<close>

theorem integrate_sound_witness:
  "sound_substrate rb_mem exact_ops
   \<and> sound_integrand rb_mem f_ident (\<lambda>z. z)
   \<and> segment_integral rb_mem (\<lambda>z. z) (\<lambda>p q. (q * q - p * p) / 2)
   \<and> sound_gl rb_mem gl_midpoint f_ident (\<lambda>p q. (q * q - p * p) / 2)
   \<and> gl_count_nonneg (gl_midpoint :: (real, real, unit) gl_rule)
   \<and> acb_contains rb_mem (pt 0) (complex_of_real 0)
   \<and> acb_contains rb_mem (pt 1) (complex_of_real 1)
   \<and> (\<exists>res p'. acb_calc_integrate exact_ops gl_midpoint f_ident () (pt 0) (pt 1) 4 0 0 0 0 0 3
                   = Some (Inr (res, p'))
          \<and> res = pt (1 / 2)
          \<and> acb_contains rb_mem res ((complex_of_real 1 * complex_of_real 1
                                        - complex_of_real 0 * complex_of_real 0) / 2))"
proof -
  note h = exact_ops_sound f_ident_sound ident_integral gl_midpoint_sound
    gl_midpoint_nonneg[where 'a = unit] pt_mem[of 0] pt_mem[of 1]
  from integrate_sound[OF h, of "()" 4 0 0 0 0 0 3] obtain res p' where
    r: "acb_calc_integrate exact_ops gl_midpoint f_ident () (pt 0) (pt 1) 4 0 0 0 0 0 3
          = Some (Inr (res, p'))"
       "acb_contains rb_mem res ((complex_of_real 1 * complex_of_real 1
                                        - complex_of_real 0 * complex_of_real 0) / 2)"
    by blast
  have ev: "map_option (map_sum id fst)
              (acb_calc_integrate exact_ops gl_midpoint f_ident () (pt 0) (pt 1) 4 0 0 0 0 0 3)
            = Some (Inr (pt (1 / 2)))"
    by code_simp
  have "res = pt (1 / 2)" using ev r(1) by simp
  with h r show ?thesis by blast
qed


section \<open>Equal endpoints\<close>

lemma main_loop_done: "depth st < 1 \<Longrightarrow> main_loop ops gl f c st = Some (Inr st)"
  by (subst main_loop.simps) simp

lemma main_loop_step:
  "1 \<le> depth st \<Longrightarrow> step ops gl f c st = Inr st' \<Longrightarrow>
     main_loop ops gl f c st = main_loop ops gl f c st'"
  by (subst main_loop.simps) simp

lemma exact_mul_zero: "acb_mul exact_ops y (acb_zero exact_ops) p = acb_zero exact_ops"
  by (simp add: exact_ops_def acb_zero_def cb_def rb_def rb_mul_def rb_sub_def rb_add_def)

text \<open>
  Claim C9, as the code has it: let the endpoints be the same ball \<open>a\<close>, with a
  difference \<open>a - a\<close> that contains zero. Then the call makes exactly one evaluation of
  the integrand, the one of the first direct enclosure \<open>v\<close>, at the ball \<open>wide\<close> with
  derivative order 0; it never bisects, \<open>depth_max\<close> stays 1; it accepts the one
  interval the first time it is read, and returns \<open>0 + v\<close>. The result is the zero
  ball when \<open>delta = (a - a) / 2\<close> is the zero ball and the substrate computes the
  product of the integrand's value with zero, the double of zero and \<open>0 + 0\<close> as zero.
\<close>

theorem equal_endpoints:
  assumes z: "acb_contains_zero ops (acb_sub ops a a prec0)"
  shows "\<exists>st v p1 wide.
       quad_simple ops (logged f) (p0, []) a a prec0 = (v, (p1, [(wide, 0, prec0)]))
     \<and> integrate_run ops gl (logged f) (p0, []) a a goal0 tol deg_limit0 eval_limit0 depth_limit0
          flags0 prec0 = Some (Inr st)
     \<and> param st = (p1, [(wide, 0, prec0)])
     \<and> eval st = 1 \<and> depth_max st = 1 \<and> depth st = 0
     \<and> s st = acb_add ops (acb_zero ops) v prec0
     \<and> (acb_mul_2exp_si ops (acb_sub ops a a prec0) (- 1) = acb_zero ops
          \<and> acb_mul ops (fst (f wide p0 0 prec0)) (acb_zero ops) prec0 = acb_zero ops
          \<and> acb_mul_2exp_si ops (acb_zero ops) 1 = acb_zero ops
          \<and> acb_add ops (acb_zero ops) (acb_zero ops) prec0 = acb_zero ops
         \<longrightarrow> s st = acb_zero ops)"
proof -
  define c where "c = resolve_limits goal0 deg_limit0 eval_limit0 depth_limit0 flags0 prec0"
  have pc: "prec c = prec0" unfolding c_def by (simp add: resolve_limits_def Let_def)
  have dl: "1 \<le> depth_limit c" unfolding c_def by (rule resolve_depth_limit_pos)
  define delta where "delta = acb_mul_2exp_si ops (acb_sub ops a a prec0) (- 1)"
  define mid where "mid = acb_mul_2exp_si ops (acb_add ops a a prec0) (- 1)"
  define wide where "wide = \<lparr>acb_realref =
                    arb_add_error_mag ops (acb_realref mid) (arb_get_mag ops (acb_realref delta)),
                  acb_imagref =
                    arb_add_error_mag ops (acb_imagref mid) (arb_get_mag ops (acb_imagref delta))\<rparr>"
  define v where "v = acb_mul_2exp_si ops (acb_mul ops (fst (f wide p0 0 prec0)) delta prec0) 1"
  define p1 where "p1 = snd (f wide p0 0 prec0)"
  have q: "quad_simple ops (logged f) (p0, []) a a prec0 = (v, (p1, [(wide, 0, prec0)]))"
    unfolding quad_simple_def logged_def Let_def v_def p1_def wide_def mid_def delta_def
    by (simp split: prod.splits)
  define st0 where "st0 = \<lparr>as = (replicate (nat (depth_limit c)) (acb_zero ops))[0 := a],
          bs = (replicate (nat (depth_limit c)) (acb_zero ops))[0 := a],
          vs = (replicate (nat (depth_limit c)) (acb_zero ops))[0 := v],
          s = acb_zero ops,
          new_tol = max tol (mag_mul_2exp_si ops (acb_get_mag_lower ops v) (- goal c)),
          depth = 1, depth_max = 1, eval = 1, stopping = False,
          param = (p1, [(wide, 0::int, prec0)])\<rparr>"
  have i0: "integrate_init ops (logged f) (p0, []) a a tol c = Inr st0"
  proof -
    have q': "quad_simple ops (logged f) (p0, []) a a (prec c) = (v, (p1, [(wide, 0, prec0)]))"
      unfolding pc by (rule q)
    show ?thesis unfolding st0_def by (rule integrate_init_eq[OF dl q'])
  qed
  from init_inv[OF dl, of ops "logged f" "(p0, [])" a a tol] i0 have inv0: "stack_inv c st0"
    by simp
  have n: "0 < nat (depth_limit c)" using dl by simp
  have f0: "as st0 ! 0 = a" "bs st0 ! 0 = a" "vs st0 ! 0 = v" "depth st0 = 1"
    unfolding st0_def using n by simp_all
  define st1 where "st1 = st0\<lparr>stopping := True\<rparr>"
  have acc: "accept_test ops c st" if "as st = as st0" "bs st = bs st0" "depth st = 1"
    for st :: "('a, 'b, 'c \<times> (('a, 'b) acb \<times> int \<times> int) list) state"
    unfolding accept_test_def Let_def that using f0 z pc by simp
  have top: "in_stack st (depth st - 1)"
    if "as st = as st0" "bs st = bs st0" "vs st = vs st0" "depth st = 1"
    for st :: "('a, 'b, 'c \<times> (('a, 'b) acb \<times> int \<times> int) list) state"
    using stack_inv_top[OF inv0] f0(4) that by (simp add: in_stack_def)
  define fin where "fin = (\<lambda>st :: ('a, 'b, 'c \<times> (('a, 'b) acb \<times> int \<times> int) list) state.
      st\<lparr>s := acb_add ops (s st) (vs st ! nat (depth st - 1)) (prec c), depth := depth st - 1\<rparr>)"
  have run: "\<exists>st. main_loop ops gl (logged f) c st0 = Some (Inr st)
       \<and> param st = (p1, [(wide, 0, prec0)]) \<and> eval st = 1 \<and> depth_max st = 1 \<and> depth st = 0
       \<and> s st = acb_add ops (acb_zero ops) v prec0"
  proof (cases "eval_limit c - 1 \<le> eval st0")
    case True
    have ns: "\<not> stopping st0" unfolding st0_def by simp
    have s1: "step ops gl (logged f) c st0 = Inr st1"
      unfolding st1_def by (rule step_budget[OF ns True])
    have e1: "as st1 = as st0" "bs st1 = bs st0" "vs st1 = vs st0" "depth st1 = 1"
      "stopping st1" unfolding st1_def using f0 by simp_all
    have s2: "step ops gl (logged f) c st1 = Inr (fin st1)"
      unfolding fin_def using step_accept[OF _ top[OF e1(1-4)] acc[OF e1(1,2,4)]] e1(5) by simp
    have d2: "depth (fin st1) < 1" unfolding fin_def using e1 by simp
    have "main_loop ops gl (logged f) c st0 = Some (Inr (fin st1))"
      using main_loop_step[of st0 ops gl "logged f" c st1] main_loop_step[of st1 ops gl "logged f" c "fin st1"]
        main_loop_done[OF d2] s1 s2 f0(4) e1(4) by simp
    moreover have "param (fin st1) = (p1, [(wide, 0, prec0)]) \<and> eval (fin st1) = 1
       \<and> depth_max (fin st1) = 1 \<and> depth (fin st1) = 0
       \<and> s (fin st1) = acb_add ops (acb_zero ops) v prec0"
      unfolding fin_def st1_def using f0 pc n by (simp add: st0_def)
    ultimately show ?thesis by blast
  next
    case False
    then have lt: "stopping st0 \<or> eval st0 < eval_limit c - 1" by simp
    have s2: "step ops gl (logged f) c st0 = Inr (fin st0)"
      unfolding fin_def using step_accept[OF lt top[OF refl refl refl f0(4)] acc[OF refl refl f0(4)]] .
    have d2: "depth (fin st0) < 1" unfolding fin_def using f0 by simp
    have "main_loop ops gl (logged f) c st0 = Some (Inr (fin st0))"
      using main_loop_step[of st0 ops gl "logged f" c "fin st0"] main_loop_done[OF d2] s2 f0(4)
      by simp
    moreover have "param (fin st0) = (p1, [(wide, 0, prec0)]) \<and> eval (fin st0) = 1
       \<and> depth_max (fin st0) = 1 \<and> depth (fin st0) = 0
       \<and> s (fin st0) = acb_add ops (acb_zero ops) v prec0"
      unfolding fin_def using f0 pc n by (simp add: st0_def)
    ultimately show ?thesis by blast
  qed
  then obtain st where st: "main_loop ops gl (logged f) c st0 = Some (Inr st)"
       "param st = (p1, [(wide, 0, prec0)])" "eval st = 1" "depth_max st = 1" "depth st = 0"
       "s st = acb_add ops (acb_zero ops) v prec0" by blast
  have R: "integrate_run ops gl (logged f) (p0, []) a a goal0 tol deg_limit0 eval_limit0 depth_limit0
          flags0 prec0 = Some (Inr st)"
    unfolding integrate_run_def Let_def c_def[symmetric] i0 using st(1) by simp
  have Z: "s st = acb_zero ops"
    if "acb_mul_2exp_si ops (acb_sub ops a a prec0) (- 1) = acb_zero ops
          \<and> acb_mul ops (fst (f wide p0 0 prec0)) (acb_zero ops) prec0 = acb_zero ops
          \<and> acb_mul_2exp_si ops (acb_zero ops) 1 = acb_zero ops
          \<and> acb_add ops (acb_zero ops) (acb_zero ops) prec0 = acb_zero ops"
    unfolding st(6) v_def delta_def using that by simp
  from q R st(2-6) Z show ?thesis by blast
qed

text \<open>
  Claim C9 as it is written fails at the endpoint ball \<open>a = b = 1 \<plusminus> 1/2\<close> with
  \<open>f(x) = x\<close>: the call makes one evaluation and no bisection, and returns the ball
  \<open>0 \<plusminus> 2\<close>, which is not of width zero.
\<close>

theorem equal_endpoints_counterexample:
  "map_option (map_sum id (\<lambda>st. (eval st, depth_max st, s st)))
     (integrate_run exact_ops gl_decline f_ident () (cb (rb 1 (1 / 2)) (rb 0 0))
        (cb (rb 1 (1 / 2)) (rb 0 0)) 4 0 0 0 0 0 3)
   = Some (Inr (1, 1, cb (rb 0 2) (rb 0 0)))
   \<and> cb (rb 0 2) (rb 0 0) \<noteq> acb_zero exact_ops"
proof -
  have "map_option (map_sum id (\<lambda>st. (eval st, depth_max st, s st)))
     (integrate_run exact_ops gl_decline f_ident () (cb (rb 1 (1 / 2)) (rb 0 0))
        (cb (rb 1 (1 / 2)) (rb 0 0)) 4 0 0 0 0 0 3)
   = Some (Inr (1, 1, cb (rb 0 2) (rb 0 0)))"
    by code_simp
  moreover have "cb (rb 0 2) (rb 0 0) \<noteq> acb_zero exact_ops"
    by (simp add: exact_ops_def acb_zero_def cb_def rb_def)
  ultimately show ?thesis by blast
qed

text \<open>
  The theorem at work: for the point \<open>a = b = 1\<close> and \<open>f(x) = x\<close> the call makes one
  evaluation and returns the zero ball.
\<close>

theorem equal_endpoints_witness:
  "acb_contains_zero exact_ops (acb_sub exact_ops (pt 1) (pt 1) 3)
   \<and> (\<exists>st. integrate_run exact_ops gl_decline (logged f_ident) ((), []) (pt 1) (pt 1) 4 0 0 0 0 0 3
               = Some (Inr st)
          \<and> eval st = 1 \<and> depth_max st = 1 \<and> depth st = 0
          \<and> length (snd (param st)) = 1
          \<and> s st = acb_zero exact_ops)"
proof -
  have z: "acb_contains_zero exact_ops (acb_sub exact_ops (pt 1) (pt 1) 3)"
    by (simp add: exact_ops_def pt_def cb_def rb_def rb_sub_def)
  from equal_endpoints[OF z, of f_ident "()" gl_decline 4 0 0 0 0 0]
  obtain st v p1 wide where
    r: "integrate_run exact_ops gl_decline (logged f_ident) ((), []) (pt 1) (pt 1) 4 0 0 0 0 0 3
          = Some (Inr st)"
       "param st = (p1, [(wide, 0, 3)])" "eval st = 1" "depth_max st = 1" "depth st = 0"
    and zz: "acb_mul_2exp_si exact_ops (acb_sub exact_ops (pt 1) (pt 1) 3) (- 1) = acb_zero exact_ops
          \<and> acb_mul exact_ops (fst (f_ident wide () 0 3)) (acb_zero exact_ops) 3 = acb_zero exact_ops
          \<and> acb_mul_2exp_si exact_ops (acb_zero exact_ops) 1 = acb_zero exact_ops
          \<and> acb_add exact_ops (acb_zero exact_ops) (acb_zero exact_ops) 3 = acb_zero exact_ops
         \<longrightarrow> s st = acb_zero exact_ops"
    by blast
  have c1: "acb_mul_2exp_si exact_ops (acb_sub exact_ops (pt 1) (pt 1) 3) (- 1) = acb_zero exact_ops"
    by (simp add: exact_ops_def acb_zero_def pt_def cb_def rb_def rb_sub_def rb_scale_def)
  have c3: "acb_mul_2exp_si exact_ops (acb_zero exact_ops) 1 = acb_zero exact_ops"
    by (simp add: exact_ops_def acb_zero_def cb_def rb_def rb_scale_def)
  have c4: "acb_add exact_ops (acb_zero exact_ops) (acb_zero exact_ops) 3 = acb_zero exact_ops"
    by (simp add: exact_ops_def acb_zero_def cb_def rb_def rb_add_def)
  have "s st = acb_zero exact_ops" using zz c1 exact_mul_zero c3 c4 by blast
  moreover have "length (snd (param st)) = 1" using r(2) by simp
  ultimately show ?thesis using z r by blast
qed



end
